theory Spec2Isabelle
  imports Main "HOL-Library.Multiset" "HOL-Library.List_Lexorder" "HOL-Library.Char_ord"
begin

section \<open>The engine\<close>

text \<open>
  \<^verbatim>\<open>script.js\<close> runs on a JavaScript engine. What the code takes from the engine and
  does not define itself is a parameter of the model, the record \<open>engine\<close>:
  \<^item> the arithmetic of numbers (IEEE doubles): the values \<open>0\<close> and \<open>NaN\<close>, \<open>+\<close>, \<open>-\<close>, the
    test for a finite number, and the number that an integer literal denotes. Nothing is
    assumed of them in the definitions, so sums round, overflow and depend on their order
    exactly as the engine's do. (\<open>-0\<close> is not told apart from \<open>0\<close>: the code cannot
    observe the difference.)
  \<^item> \<^verbatim>\<open>Date.parse\<close>: the time value in milliseconds of a date string, \<open>None\<close> for an
    invalid date (time value NaN);
  \<^item> \<^verbatim>\<open>String.prototype.localeCompare\<close>;
  \<^item> the order \<^verbatim>\<open>Array.prototype.sort\<close> produces when the comparator is not
    consistent, which the language leaves to the engine: given the comparator on the
    indices and the length, the indices in their new order.
\<close>

record 'n engine =
  num_zero :: 'n
  num_nan :: 'n
  num_add :: "'n \<Rightarrow> 'n \<Rightarrow> 'n"
  num_sub :: "'n \<Rightarrow> 'n \<Rightarrow> 'n"
  num_finite :: "'n \<Rightarrow> bool"
  num_int :: "int \<Rightarrow> 'n"
  dateParse :: "string \<Rightarrow> int option"
  localeCompare :: "string \<Rightarrow> string \<Rightarrow> int"
  sortOrder :: "(nat \<Rightarrow> nat \<Rightarrow> int) \<Rightarrow> nat \<Rightarrow> nat list"

datatype js_error = SyntaxError | TypeError | Error string

text \<open>A number is falsy when it is 0 or NaN.\<close>

definition falsyNum :: "'n engine \<Rightarrow> 'n \<Rightarrow> bool" where
  "falsyNum e x = (x = num_zero e \<or> x = num_nan e)"

section \<open>Data model of the store\<close>

text \<open>
  The store holds three arrays: items, warehouses and permissions. Each object is a
  record with the fields the code reads. Strings are byte lists holding the UTF-8
  encoding of the JavaScript string. Ids, names, types and groups are strings; where the
  code allows one to be absent (an item's \<^verbatim>\<open>group\<close>, a line's \<^verbatim>\<open>desc\<close>, every filter
  argument), the absent value is the empty string: the code tests such a value for
  truthiness or compares it with \<^verbatim>\<open>===\<close> against a truthy string, and in both uses
  \<^verbatim>\<open>undefined\<close> and \<^verbatim>\<open>''\<close> behave alike.

  A date field (\<^verbatim>\<open>date\<close>, \<^verbatim>\<open>createdAt\<close>) is absent, \<^verbatim>\<open>null\<close> or a string, and a
  quantity is absent, \<^verbatim>\<open>null\<close> or a number: these are the values a restored backup can
  put there, and \<^verbatim>\<open>new Date\<close> and \<^verbatim>\<open>Number\<close> treat them differently.
\<close>

datatype jsdate = DateUndefined | DateNull | DateStr string

datatype 'n jsqty = QtyUndefined | QtyNull | QtyNum 'n

record item =
  item_id :: string
  item_name :: string
  item_unit :: string
  item_type :: string
  item_group :: string

record warehouse =
  wh_id :: string
  wh_name :: string
  wh_desc :: string

record 'n line =
  itemId :: string
  line_unit :: string
  qty :: "'n jsqty"
  desc :: string

record 'n permission =
  perm_id :: string
  number :: string
  perm_type :: string
  perm_store :: string
  perm_from :: string
  perm_to :: string
  date :: jsdate
  subNumber :: string
  posted :: bool
  postedAt :: string
  lines :: "'n line list"
  createdAt :: jsdate

record 'n store =
  items :: "item list"
  warehouses :: "warehouse list"
  permissions :: "'n permission list"

text \<open>The five document kinds, as the UTF-8 bytes of the literals in the \<^verbatim>\<open>switch\<close>.\<close>

definition type_addition :: string where
  "type_addition =
     [CHR 0xD8, CHR 0xA5, CHR 0xD8, CHR 0xB0, CHR 0xD9, CHR 0x86, CHR 0x20, CHR 0xD8,
      CHR 0xA5, CHR 0xD8, CHR 0xB6, CHR 0xD8, CHR 0xA7, CHR 0xD9, CHR 0x81, CHR 0xD8,
      CHR 0xA9]"

definition type_transfer :: string where
  "type_transfer =
     [CHR 0xD8, CHR 0xA5, CHR 0xD8, CHR 0xB0, CHR 0xD9, CHR 0x86, CHR 0x20, CHR 0xD8,
      CHR 0xAA, CHR 0xD8, CHR 0xAD, CHR 0xD9, CHR 0x88, CHR 0xD9, CHR 0x8A, CHR 0xD9,
      CHR 0x84]"

definition type_equipment :: string where
  "type_equipment =
     [CHR 0xD8, CHR 0xA5, CHR 0xD8, CHR 0xB0, CHR 0xD9, CHR 0x86, CHR 0x20, CHR 0xD8,
      CHR 0xAE, CHR 0xD8, CHR 0xB5, CHR 0xD9, CHR 0x85, CHR 0x20, CHR 0xD9, CHR 0x85,
      CHR 0xD8, CHR 0xB9, CHR 0xD8, CHR 0xAF, CHR 0xD8, CHR 0xA9]"

definition type_disbursement :: string where
  "type_disbursement =
     [CHR 0xD8, CHR 0xA5, CHR 0xD8, CHR 0xB0, CHR 0xD9, CHR 0x86, CHR 0x20, CHR 0xD8,
      CHR 0xB5, CHR 0xD8, CHR 0xB1, CHR 0xD9, CHR 0x81]"

definition type_return :: string where
  "type_return =
     [CHR 0xD8, CHR 0xA5, CHR 0xD8, CHR 0xB0, CHR 0xD9, CHR 0x86, CHR 0x20, CHR 0xD8,
      CHR 0xA7, CHR 0xD8, CHR 0xB1, CHR 0xD8, CHR 0xAA, CHR 0xD8, CHR 0xAC, CHR 0xD8,
      CHR 0xA7, CHR 0xD8, CHR 0xB9]"

section \<open>Entity operations\<close>

text \<open>
  \<^verbatim>\<open>removeItem\<close> filters the item out of the items array and leaves the permissions
  alone. (\<^verbatim>\<open>saveStore\<close> then writes the new store to local storage.)
\<close>

definition removeItem :: "string \<Rightarrow> 'n store \<Rightarrow> 'n store" where
  "removeItem i s = s\<lparr>items := filter (\<lambda>it. item_id it \<noteq> i) (items s)\<rparr>"

section \<open>Dates\<close>

text \<open>
  \<^verbatim>\<open>new Date(v)\<close>: an absent value gives an invalid date, \<^verbatim>\<open>null\<close> the epoch, and a
  string what the engine's parser makes of it (the empty string is never a valid date).
\<close>

definition newDate :: "'n engine \<Rightarrow> jsdate \<Rightarrow> int option" where
  "newDate e d =
     (case d of DateUndefined \<Rightarrow> None | DateNull \<Rightarrow> Some 0
      | DateStr s \<Rightarrow> (if s = [] then None else dateParse e s))"

text \<open>Truthiness of a date field: only a non-empty string is truthy.\<close>

definition truthyDate :: "jsdate \<Rightarrow> bool" where
  "truthyDate d = (case d of DateStr s \<Rightarrow> s \<noteq> [] | _ \<Rightarrow> False)"

text \<open>\<^verbatim>\<open>a < b\<close> on two dates compares the time values; it is false when either is NaN.\<close>

definition dateLess :: "int option \<Rightarrow> int option \<Rightarrow> bool" where
  "dateLess a b = (case a of None \<Rightarrow> False
                   | Some x \<Rightarrow> (case b of None \<Rightarrow> False | Some y \<Rightarrow> x < y))"

section \<open>Plain objects used as dictionaries\<close>

text \<open>
  \<^verbatim>\<open>balances\<close> and \<^verbatim>\<open>out\<close> are plain objects. Such an object has its own properties
  and inherits those of \<^verbatim>\<open>Object.prototype\<close>, whose names are \<open>protoNames\<close>. An object
  of the model is the map of its own properties. Reading a property gives the own value,
  else the inherited member (a function, or the prototype itself for \<^verbatim>\<open>__proto__\<close>),
  else \<^verbatim>\<open>undefined\<close>. Assigning creates or updates an own property, except for
  \<^verbatim>\<open>__proto__\<close>, whose inherited setter ignores a number and creates nothing.
  \<^verbatim>\<open>balances.hasOwnProperty(k)\<close> looks \<^verbatim>\<open>hasOwnProperty\<close> up like any property: once the
  object has an own property of that name, a number, the call throws a \<^verbatim>\<open>TypeError\<close>.
\<close>

definition protoNames :: "string list" where
  "protoNames =
     [''constructor'', ''__defineGetter__'', ''__defineSetter__'', ''hasOwnProperty'',
      ''__lookupGetter__'', ''__lookupSetter__'', ''isPrototypeOf'',
      ''propertyIsEnumerable'', ''toString'', ''valueOf'', ''__proto__'',
      ''toLocaleString'']"

definition protoKey :: string where
  "protoKey = ''__proto__''"

definition hasOwnKey :: string where
  "hasOwnKey = ''hasOwnProperty''"

datatype 'n jsval = Undefined | Number 'n | Inherited

definition getProp :: "(string \<rightharpoonup> 'n) \<Rightarrow> string \<Rightarrow> 'n jsval" where
  "getProp obj k =
     (case obj k of Some v \<Rightarrow> Number v
      | None \<Rightarrow> (if k \<in> set protoNames then Inherited else Undefined))"

definition setProp :: "(string \<rightharpoonup> 'v) \<Rightarrow> string \<Rightarrow> 'v \<Rightarrow> (string \<rightharpoonup> 'v)" where
  "setProp obj k v = (if k = protoKey then obj else obj(k \<mapsto> v))"

definition hasOwnProperty :: "(string \<rightharpoonup> 'n) \<Rightarrow> string \<Rightarrow> js_error + bool" where
  "hasOwnProperty obj k =
     (if obj hasOwnKey \<noteq> None then Inl TypeError else Inr (obj k \<noteq> None))"

text \<open>A loop whose body can throw: the first error ends it.\<close>

fun forEachE :: "('a \<Rightarrow> 'b \<Rightarrow> js_error + 'a) \<Rightarrow> 'a \<Rightarrow> 'b list \<Rightarrow> js_error + 'a" where
  "forEachE f a [] = Inr a"
| "forEachE f a (x # xs) = (case f a x of Inl err \<Rightarrow> Inl err | Inr a' \<Rightarrow> forEachE f a' xs)"

section \<open>Balance calculation\<close>

text \<open>
  The argument object of \<^verbatim>\<open>computeBalances\<close>. Every field is only used when truthy,
  so an absent filter is the empty string.
\<close>

record filters =
  fromDate :: string
  toDate :: string
  filterPermType :: string
  filterItemId :: string
  filterGroup :: string

definition noFilters :: filters where
  "noFilters = \<lparr>fromDate = [], toDate = [], filterPermType = [], filterItemId = [],
                 filterGroup = []\<rparr>"

text \<open>
  \<^verbatim>\<open>Number(line.qty) || 0\<close>: \<^verbatim>\<open>Number\<close> of an absent value is NaN and of \<^verbatim>\<open>null\<close> is
  0; a falsy result (0 or NaN) is replaced by 0.
\<close>

definition toNumber :: "'n engine \<Rightarrow> 'n jsqty \<Rightarrow> 'n" where
  "toNumber e q =
     (case q of QtyUndefined \<Rightarrow> num_nan e | QtyNull \<Rightarrow> num_zero e | QtyNum n \<Rightarrow> n)"

definition numberOr0 :: "'n engine \<Rightarrow> 'n jsqty \<Rightarrow> 'n" where
  "numberOr0 e q = (if falsyNum e (toNumber e q) then num_zero e else toNumber e q)"

text \<open>
  \<^verbatim>\<open>balances[k] || 0\<close>: \<^verbatim>\<open>undefined\<close> and a falsy number give 0; an inherited member is
  truthy and is the result.
\<close>

definition orZero :: "'n engine \<Rightarrow> 'n jsval \<Rightarrow> 'n jsval" where
  "orZero e v =
     (case v of Undefined \<Rightarrow> Number (num_zero e)
      | Number x \<Rightarrow> (if falsyNum e x then Number (num_zero e) else Number x)
      | Inherited \<Rightarrow> Inherited)"

text \<open>The second \<^verbatim>\<open>filter\<close> callback: document type, then the two date bounds.\<close>

definition permFilter :: "'n engine \<Rightarrow> filters \<Rightarrow> 'n permission \<Rightarrow> bool" where
  "permFilter e f p =
     (if filterPermType f \<noteq> [] \<and> perm_type p \<noteq> filterPermType f then False
      else if fromDate f \<noteq> [] \<and>
              dateLess (newDate e (date p)) (newDate e (DateStr (fromDate f))) then False
      else if toDate f \<noteq> [] \<and>
              dateLess (newDate e (DateStr (toDate f))) (newDate e (date p)) then False
      else True)"

definition selectedPermissions :: "'n engine \<Rightarrow> filters \<Rightarrow> 'n store \<Rightarrow> 'n permission list" where
  "selectedPermissions e f s = filter (permFilter e f) (filter posted (permissions s))"

text \<open>
  \<^verbatim>\<open>balances[k] += q\<close> and \<^verbatim>\<open>balances[k] -= q\<close>. They run after the key has been
  created, so the value read is the own number, except for the key \<^verbatim>\<open>__proto__\<close>, which
  is never created: there the result is not stored.
\<close>

definition addTo :: "'n engine \<Rightarrow> (string \<rightharpoonup> 'n) \<Rightarrow> string \<Rightarrow> 'n \<Rightarrow> (string \<rightharpoonup> 'n)" where
  "addTo e b k q =
     setProp b k (case getProp b k of Number v \<Rightarrow> num_add e v q | _ \<Rightarrow> num_nan e)"

definition subFrom :: "'n engine \<Rightarrow> (string \<rightharpoonup> 'n) \<Rightarrow> string \<Rightarrow> 'n \<Rightarrow> (string \<rightharpoonup> 'n)" where
  "subFrom e b k q =
     setProp b k (case getProp b k of Number v \<Rightarrow> num_sub e v q | _ \<Rightarrow> num_nan e)"

text \<open>
  The body of the inner \<^verbatim>\<open>forEach\<close>: the key is created with 0 when
  \<^verbatim>\<open>hasOwnProperty\<close> says it is not there, then the \<^verbatim>\<open>switch\<close> on the document type
  adds or subtracts the quantity.
\<close>

definition applyLine ::
  "'n engine \<Rightarrow> string \<Rightarrow> (string \<rightharpoonup> 'n) \<Rightarrow> 'n line \<Rightarrow> js_error + (string \<rightharpoonup> 'n)" where
  "applyLine e ty balances ln =
     (case hasOwnProperty balances (itemId ln) of
        Inl err \<Rightarrow> Inl err
      | Inr own \<Rightarrow>
          (let k = itemId ln;
               b = (if own then balances else setProp balances k (num_zero e));
               q = numberOr0 e (qty ln)
           in Inr (if ty = type_addition then addTo e b k q
                   else if ty = type_transfer then subFrom e b k q
                   else if ty = type_equipment then subFrom e b k q
                   else if ty = type_disbursement then subFrom e b k q
                   else if ty = type_return then addTo e b k q
                   else b)))"

definition applyPermission ::
  "'n engine \<Rightarrow> (string \<rightharpoonup> 'n) \<Rightarrow> 'n permission \<Rightarrow> js_error + (string \<rightharpoonup> 'n)" where
  "applyPermission e balances p = forEachE (applyLine e (perm_type p)) balances (lines p)"

definition initBalances :: "'n engine \<Rightarrow> item list \<Rightarrow> (string \<rightharpoonup> 'n)" where
  "initBalances e its = foldl (\<lambda>b it. setProp b (item_id it) (num_zero e)) Map.empty its"

text \<open>The object \<^verbatim>\<open>balances\<close> after the scan, before the output filters.\<close>

definition scanBalances ::
  "'n engine \<Rightarrow> filters \<Rightarrow> 'n store \<Rightarrow> js_error + (string \<rightharpoonup> 'n)" where
  "scanBalances e f s =
     forEachE (applyPermission e) (initBalances e (items s)) (selectedPermissions e f s)"

text \<open>
  The result is the own properties of the returned object. With \<open>filterItemId\<close> or
  \<open>filterGroup\<close> a value can be an inherited member, since \<^verbatim>\<open>balances[k] || 0\<close> reads
  through the prototype.
\<close>

definition computeBalances ::
  "'n engine \<Rightarrow> filters \<Rightarrow> 'n store \<Rightarrow> js_error + (string \<rightharpoonup> 'n jsval)" where
  "computeBalances e f s =
     (case scanBalances e f s of
        Inl err \<Rightarrow> Inl err
      | Inr balances \<Rightarrow>
          Inr (if filterItemId f \<noteq> [] then
                 setProp Map.empty (filterItemId f) (orZero e (getProp balances (filterItemId f)))
               else if filterGroup f \<noteq> [] then
                 foldl (\<lambda>out it. setProp out (item_id it) (orZero e (getProp balances (item_id it))))
                   Map.empty (filter (\<lambda>it. item_group it = filterGroup f) (items s))
               else (\<lambda>k. map_option Number (balances k))))"

section \<open>Sorting\<close>

text \<open>
  A comparator returns a number; \<open>None\<close> is NaN. \<^verbatim>\<open>Array.prototype.sort\<close> is stable, so
  for a consistent comparator (the language's notion, which excludes a NaN result) every
  conforming engine returns the list that a stable insertion sort returns. For any other
  comparator the language leaves the order to the engine; it is still a rearrangement of
  the array. The engine is handed the comparator with NaN read as 0, as the sort
  comparison of the language does, and its answer is used when it is a rearrangement of
  the indices.
\<close>

definition cmpLess :: "('a \<Rightarrow> 'a \<Rightarrow> int option) \<Rightarrow> 'a \<Rightarrow> 'a \<Rightarrow> bool" where
  "cmpLess cmp a b = (case cmp a b of None \<Rightarrow> False | Some v \<Rightarrow> v < 0)"

definition cmpEqual :: "('a \<Rightarrow> 'a \<Rightarrow> int option) \<Rightarrow> 'a \<Rightarrow> 'a \<Rightarrow> bool" where
  "cmpEqual cmp a b = (case cmp a b of None \<Rightarrow> False | Some v \<Rightarrow> v = 0)"

definition cmpGreater :: "('a \<Rightarrow> 'a \<Rightarrow> int option) \<Rightarrow> 'a \<Rightarrow> 'a \<Rightarrow> bool" where
  "cmpGreater cmp a b = (case cmp a b of None \<Rightarrow> False | Some v \<Rightarrow> 0 < v)"

definition consistentAt :: "('a \<Rightarrow> 'a \<Rightarrow> int option) \<Rightarrow> 'a \<Rightarrow> 'a \<Rightarrow> 'a \<Rightarrow> bool" where
  "consistentAt cmp a b c =
     (cmp a b \<noteq> None \<and> cmpEqual cmp a a \<and>
      (\<not> cmpEqual cmp a b \<or> cmpEqual cmp b a) \<and>
      (\<not> (cmpEqual cmp a b \<and> cmpEqual cmp b c) \<or> cmpEqual cmp a c) \<and>
      (\<not> (cmpLess cmp a b \<and> cmpLess cmp b c) \<or> cmpLess cmp a c) \<and>
      (\<not> (cmpGreater cmp a b \<and> cmpGreater cmp b c) \<or> cmpGreater cmp a c))"

definition consistent :: "('a \<Rightarrow> 'a \<Rightarrow> int option) \<Rightarrow> 'a list \<Rightarrow> bool" where
  "consistent cmp xs =
     list_all (\<lambda>a. list_all (\<lambda>b. list_all (\<lambda>c. consistentAt cmp a b c) xs) xs) xs"

fun insertBy :: "('a \<Rightarrow> 'a \<Rightarrow> int option) \<Rightarrow> 'a \<Rightarrow> 'a list \<Rightarrow> 'a list" where
  "insertBy cmp x [] = [x]"
| "insertBy cmp x (y # ys) =
     (if cmpGreater cmp x y then y # insertBy cmp x ys else x # y # ys)"

definition engineOrder :: "'n engine \<Rightarrow> ('a \<Rightarrow> 'a \<Rightarrow> int option) \<Rightarrow> 'a list \<Rightarrow> 'a list" where
  "engineOrder e cmp xs =
     (let n = length xs;
          order = sortOrder e (\<lambda>i j. case cmp (xs ! i) (xs ! j) of None \<Rightarrow> 0 | Some v \<Rightarrow> v) n
      in if sort order = [0..<n] then map (\<lambda>i. xs ! i) order else xs)"

definition arraySort :: "'n engine \<Rightarrow> ('a \<Rightarrow> 'a \<Rightarrow> int option) \<Rightarrow> 'a list \<Rightarrow> 'a list" where
  "arraySort e cmp xs =
     (if consistent cmp xs then foldr (insertBy cmp) xs [] else engineOrder e cmp xs)"

section \<open>Item card\<close>

text \<open>One transaction of the card, and the row made from it by adding the running balance.\<close>

record 'n tx =
  header :: string
  inVal :: 'n
  outVal :: 'n
  tx_desc :: string
  permNumber :: string
  tx_date :: jsdate

record 'n row = "'n tx" +
  balance :: 'n

record 'n card =
  rows :: "'n row list"
  card_balance :: 'n

text \<open>\<^verbatim>\<open>p.date || p.createdAt\<close>\<close>

definition dateOrCreated :: "'n permission \<Rightarrow> jsdate" where
  "dateOrCreated p = (if truthyDate (date p) then date p else createdAt p)"

text \<open>The comparator handed to \<^verbatim>\<open>sort\<close>: the difference of the two time values.\<close>

definition compareDates :: "'n engine \<Rightarrow> 'n permission \<Rightarrow> 'n permission \<Rightarrow> int option" where
  "compareDates e a b =
     (case newDate e (dateOrCreated a) of None \<Rightarrow> None
      | Some x \<Rightarrow> (case newDate e (dateOrCreated b) of None \<Rightarrow> None | Some y \<Rightarrow> Some (x - y)))"

definition lineTx :: "'n engine \<Rightarrow> 'n permission \<Rightarrow> 'n line \<Rightarrow> 'n tx" where
  "lineTx e p ln =
     (let q = numberOr0 e (qty ln);
          isIn = (perm_type p = type_addition \<or> perm_type p = type_return)
      in \<lparr>header = perm_type p,
          inVal = (if isIn then q else num_zero e),
          outVal = (if isIn then num_zero e else q),
          tx_desc = desc ln,
          permNumber = number p,
          tx_date = dateOrCreated p\<rparr>)"

definition cardPermissions :: "'n engine \<Rightarrow> string \<Rightarrow> 'n store \<Rightarrow> 'n permission list" where
  "cardPermissions e i s =
     arraySort e (compareDates e)
       (filter (\<lambda>p. list_ex (\<lambda>l. itemId l = i) (lines p)) (filter posted (permissions s)))"

definition permissionTxs :: "'n engine \<Rightarrow> string \<Rightarrow> 'n permission \<Rightarrow> 'n tx list" where
  "permissionTxs e i p = map (lineTx e p) (filter (\<lambda>l. itemId l = i) (lines p))"

definition cardTxs :: "'n engine \<Rightarrow> string \<Rightarrow> 'n store \<Rightarrow> 'n tx list" where
  "cardTxs e i s = concat (map (permissionTxs e i) (cardPermissions e i s))"

text \<open>
  The second loop: \<open>(rows, bal)\<close> after each transaction, with
  \<^verbatim>\<open>bal += (t.in - t.out)\<close>. The pushed row is a copy of the transaction with the field
  \<^verbatim>\<open>balance\<close> added.
\<close>

definition pushRow :: "'n engine \<Rightarrow> 'n row list \<times> 'n \<Rightarrow> 'n tx \<Rightarrow> 'n row list \<times> 'n" where
  "pushRow e acc t =
     (let bal = num_add e (snd acc) (num_sub e (inVal t) (outVal t))
      in (fst acc @
            [\<lparr>header = header t, inVal = inVal t, outVal = outVal t, tx_desc = tx_desc t,
              permNumber = permNumber t, tx_date = tx_date t, balance = bal\<rparr>],
          bal))"

definition getItemCard :: "'n engine \<Rightarrow> string \<Rightarrow> 'n store \<Rightarrow> 'n card" where
  "getItemCard e i s =
     (let r = foldl (pushRow e) ([], num_zero e) (cardTxs e i s)
      in \<lparr>rows = fst r, card_balance = snd r\<rparr>)"

section \<open>Backup export and restore\<close>

text \<open>
  The global \<^verbatim>\<open>store\<close> is whatever was last assigned to it, and a restore assigns any
  parsed value that passes the validation. So the store of the page is \<open>data\<close>: a value
  seen through its three properties. A property is \<open>Missing\<close> when it is absent or holds
  a falsy value (then \<^verbatim>\<open>!data.items\<close> is true), \<open>NotArray\<close> when it holds a truthy
  value that is not an array, and otherwise the array of records.
\<close>

datatype 'a container = Missing | NotArray | Array "'a list"

record 'n data =
  d_items :: "item container"
  d_warehouses :: "warehouse container"
  d_permissions :: "'n permission container"

text \<open>
  A JSON text is given by the value it denotes. A file is not JSON, or it is the text of
  \<^verbatim>\<open>null\<close>, or the text of another value. \<^verbatim>\<open>JSON.stringify\<close> writes the text of the
  value except that a number that is not finite (NaN, an infinity) is written as
  \<^verbatim>\<open>null\<close>; an absent property is left out, so it is absent again when the text is
  parsed. \<open>serialized\<close> is the value denoted by the text \<^verbatim>\<open>JSON.stringify\<close> writes.
\<close>

datatype 'n backup = NotJson | JsonNull | JsonValue "'n data"

definition serializedQty :: "'n engine \<Rightarrow> 'n jsqty \<Rightarrow> 'n jsqty" where
  "serializedQty e q =
     (case q of QtyNum n \<Rightarrow> (if num_finite e n then QtyNum n else QtyNull)
      | QtyNull \<Rightarrow> QtyNull | QtyUndefined \<Rightarrow> QtyUndefined)"

definition serializedLine :: "'n engine \<Rightarrow> 'n line \<Rightarrow> 'n line" where
  "serializedLine e ln = ln\<lparr>qty := serializedQty e (qty ln)\<rparr>"

definition serializedPermission :: "'n engine \<Rightarrow> 'n permission \<Rightarrow> 'n permission" where
  "serializedPermission e p = p\<lparr>lines := map (serializedLine e) (lines p)\<rparr>"

definition serialized :: "'n engine \<Rightarrow> 'n data \<Rightarrow> 'n data" where
  "serialized e d =
     d\<lparr>d_permissions :=
         (case d_permissions d of Array ps \<Rightarrow> Array (map (serializedPermission e) ps)
          | NotArray \<Rightarrow> NotArray | Missing \<Rightarrow> Missing)\<rparr>"

text \<open>
  The state of the page: the global \<^verbatim>\<open>store\<close> and the text kept in local storage
  under \<^verbatim>\<open>STORAGE_KEY\<close>.
\<close>

record 'n app =
  app_store :: "'n data"
  app_saved :: "'n backup"

definition saveStore :: "'n engine \<Rightarrow> 'n app \<Rightarrow> 'n app" where
  "saveStore e st = st\<lparr>app_saved := JsonValue (serialized e (app_store st))\<rparr>"

text \<open>The store as the functions above read it, when all three properties are arrays.\<close>

definition typedStore :: "'n data \<Rightarrow> 'n store option" where
  "typedStore d =
     (case d_items d of Array its \<Rightarrow>
        (case d_warehouses d of Array whs \<Rightarrow>
           (case d_permissions d of Array ps \<Rightarrow>
              Some \<lparr>items = its, warehouses = whs, permissions = ps\<rparr>
            | _ \<Rightarrow> None)
         | _ \<Rightarrow> None)
      | _ \<Rightarrow> None)"

text \<open>
  \<^verbatim>\<open>renderItemsTable\<close> and \<^verbatim>\<open>renderStockTable\<close> call \<^verbatim>\<open>computeBalances()\<close> and
  write the rows of a table. They throw when \<^verbatim>\<open>computeBalances\<close> throws, and with a
  \<^verbatim>\<open>TypeError\<close> when a property is not an array (a call of \<^verbatim>\<open>forEach\<close> or
  \<^verbatim>\<open>filter\<close> on it). The elements of the page are taken to exist.
\<close>

definition renderItemsTable :: "'n engine \<Rightarrow> 'n app \<Rightarrow> js_error option" where
  "renderItemsTable e st =
     (case typedStore (app_store st) of None \<Rightarrow> Some TypeError
      | Some s \<Rightarrow> (case computeBalances e noFilters s of Inl err \<Rightarrow> Some err | Inr _ \<Rightarrow> None))"

text \<open>
  \<^verbatim>\<open>refreshMasterData\<close> fills the warehouse selectors, then sorts \<^verbatim>\<open>store.items\<close> in
  place by name while it fills the item selector, and ends with \<^verbatim>\<open>renderItemsTable\<close>.
  (An item of the model has a name, a string, as every item made by the item form or the
  CSV import has; a payload whose items have no name is outside the model.)
\<close>

definition refreshMasterData :: "'n engine \<Rightarrow> 'n app \<Rightarrow> js_error option \<times> 'n app" where
  "refreshMasterData e st =
     (case d_warehouses (app_store st) of
        Array whs \<Rightarrow>
          (case d_items (app_store st) of
             Array its \<Rightarrow>
               (let st' = st\<lparr>app_store := (app_store st)
                            \<lparr>d_items := Array (arraySort e
                                (\<lambda>a b. Some (localeCompare e (item_name a) (item_name b))) its)\<rparr>\<rparr>
                in (renderItemsTable e st', st'))
           | _ \<Rightarrow> (Some TypeError, st))
      | _ \<Rightarrow> (Some TypeError, st))"

text \<open>
  \<^verbatim>\<open>refreshAllViews\<close>: \<^verbatim>\<open>saveStore\<close>, \<^verbatim>\<open>refreshMasterData\<close>, then the tables
  (\<^verbatim>\<open>renderWarehouses\<close> only reads the warehouses, an array at that point).
\<close>

definition refreshAllViews :: "'n engine \<Rightarrow> 'n app \<Rightarrow> js_error option \<times> 'n app" where
  "refreshAllViews e st =
     (case refreshMasterData e (saveStore e st) of
        (Some err, st') \<Rightarrow> (Some err, st')
      | (None, st') \<Rightarrow> (renderItemsTable e st', st'))"

text \<open>\<^verbatim>\<open>exportBackup\<close>: the content of the downloaded file.\<close>

definition exportBackup :: "'n engine \<Rightarrow> 'n app \<Rightarrow> 'n backup" where
  "exportBackup e st = JsonValue (serialized e (app_store st))"

text \<open>The \<^verbatim>\<open>Error\<close> thrown by the validation of a backup, with its message.\<close>

definition InvalidBackup :: js_error where
  "InvalidBackup = Error
     [CHR 0xD9, CHR 0x85, CHR 0xD9, CHR 0x84, CHR 0xD9, CHR 0x81, CHR 0x20, CHR 0xD9,
      CHR 0x86, CHR 0xD8, CHR 0xB3, CHR 0xD8, CHR 0xAE, CHR 0xD8, CHR 0xA9, CHR 0x20,
      CHR 0xD8, CHR 0xA7, CHR 0xD8, CHR 0xAD, CHR 0xD8, CHR 0xAA, CHR 0xD9, CHR 0x8A,
      CHR 0xD8, CHR 0xA7, CHR 0xD8, CHR 0xB7, CHR 0xD9, CHR 0x8A, CHR 0xD8, CHR 0xA9,
      CHR 0x20, CHR 0xD8, CHR 0xBA, CHR 0xD9, CHR 0x8A, CHR 0xD8, CHR 0xB1, CHR 0x20,
      CHR 0xD8, CHR 0xB5, CHR 0xD8, CHR 0xA7, CHR 0xD9, CHR 0x84, CHR 0xD8, CHR 0xAD]"

text \<open>
  \<^verbatim>\<open>importBackupFile\<close>, from the moment the file has been read. The result is the alert
  shown (success, or the failure with the error caught) and the new state.
  \<^verbatim>\<open>JSON.parse\<close> throws on a text that is not JSON; reading \<^verbatim>\<open>data.items\<close> of
  \<^verbatim>\<open>null\<close> throws a \<^verbatim>\<open>TypeError\<close>; the validation throws when a property is falsy.
  After that the store is replaced and saved and \<^verbatim>\<open>refreshAllViews\<close> runs, inside the
  same \<^verbatim>\<open>try\<close>: an error it throws is reported as a failure although the store has
  been replaced.
\<close>

datatype outcome = Restored | RestoreFailed js_error

definition importBackupFile :: "'n engine \<Rightarrow> 'n backup \<Rightarrow> 'n app \<Rightarrow> outcome \<times> 'n app" where
  "importBackupFile e content st =
     (case content of
        NotJson \<Rightarrow> (RestoreFailed SyntaxError, st)
      | JsonNull \<Rightarrow> (RestoreFailed TypeError, st)
      | JsonValue d \<Rightarrow>
          (if d_items d = Missing \<or> d_warehouses d = Missing \<or> d_permissions d = Missing
           then (RestoreFailed InvalidBackup, st)
           else (case refreshAllViews e (saveStore e (st\<lparr>app_store := d\<rparr>)) of
                   (Some err, st') \<Rightarrow> (RestoreFailed err, st')
                 | (None, st') \<Rightarrow> (Restored, st'))))"

section \<open>Specification functions\<close>

text \<open>
  The permissions that take part in the aggregation for given filters: posted, of the
  requested type when one is requested, and not outside a date bound. A bound only
  excludes when both it and the permission's date have a time value.
\<close>

definition notBefore :: "'n engine \<Rightarrow> filters \<Rightarrow> 'n permission \<Rightarrow> bool" where
  "notBefore e f p =
     (fromDate f = [] \<or>
      (case newDate e (DateStr (fromDate f)) of None \<Rightarrow> True
       | Some a \<Rightarrow> (case newDate e (date p) of None \<Rightarrow> True | Some t \<Rightarrow> a \<le> t)))"

definition notAfter :: "'n engine \<Rightarrow> filters \<Rightarrow> 'n permission \<Rightarrow> bool" where
  "notAfter e f p =
     (toDate f = [] \<or>
      (case newDate e (DateStr (toDate f)) of None \<Rightarrow> True
       | Some b \<Rightarrow> (case newDate e (date p) of None \<Rightarrow> True | Some t \<Rightarrow> t \<le> b)))"

definition aggregated :: "'n engine \<Rightarrow> filters \<Rightarrow> 'n store \<Rightarrow> 'n permission list" where
  "aggregated e f s =
     filter (\<lambda>p. posted p \<and> (filterPermType f = [] \<or> perm_type p = filterPermType f) \<and>
                 notBefore e f p \<and> notAfter e f p)
       (permissions s)"

text \<open>
  The sign rule, in the engine's arithmetic: what one line of a permission of type \<open>ty\<close>
  makes of the balance \<open>v\<close> of its item.
\<close>

definition lineStep :: "'n engine \<Rightarrow> string \<Rightarrow> 'n \<Rightarrow> 'n line \<Rightarrow> 'n" where
  "lineStep e ty v ln =
     (if ty = type_addition \<or> ty = type_return then num_add e v (numberOr0 e (qty ln))
      else if ty = type_transfer \<or> ty = type_equipment \<or> ty = type_disbursement
        then num_sub e v (numberOr0 e (qty ln))
      else v)"

text \<open>
  The balance of item \<open>k\<close> after the permissions \<open>ps\<close>: the sign rule applied, from 0, to
  the lines for \<open>k\<close>, permission after permission and line after line.
\<close>

definition permValue :: "'n engine \<Rightarrow> string \<Rightarrow> 'n \<Rightarrow> 'n permission \<Rightarrow> 'n" where
  "permValue e k v p =
     foldl (\<lambda>w ln. if itemId ln = k then lineStep e (perm_type p) w ln else w) v (lines p)"

definition balanceOf :: "'n engine \<Rightarrow> string \<Rightarrow> 'n permission list \<Rightarrow> 'n" where
  "balanceOf e k ps = foldl (permValue e k) (num_zero e) ps"

text \<open>The own number under a key of \<^verbatim>\<open>balances\<close>, 0 when there is none.\<close>

definition ownOr0 :: "'n engine \<Rightarrow> (string \<rightharpoonup> 'n) \<Rightarrow> string \<Rightarrow> 'n" where
  "ownOr0 e b k = (case b k of None \<Rightarrow> num_zero e | Some v \<Rightarrow> v)"

text \<open>The item ids that occur in a line of one of the permissions.\<close>

definition referenced :: "'n permission list \<Rightarrow> string set" where
  "referenced ps = \<Union> (set (map (\<lambda>p. itemId ` set (lines p)) ps))"

text \<open>The ids of a store: those of its items and those in the lines of its permissions.\<close>

definition storeIds :: "'n store \<Rightarrow> string set" where
  "storeIds s = item_id ` set (items s) \<union> referenced (permissions s)"

text \<open>The signs as integers, the five kinds, and sums of integer quantities.\<close>

definition signOf :: "string \<Rightarrow> int" where
  "signOf ty =
     (if ty = type_addition \<or> ty = type_return then 1
      else if ty = type_transfer \<or> ty = type_equipment \<or> ty = type_disbursement then - 1
      else 0)"

definition cardSign :: "string \<Rightarrow> int" where
  "cardSign ty = (if ty = type_addition \<or> ty = type_return then 1 else - 1)"

definition knownType :: "string \<Rightarrow> bool" where
  "knownType ty =
     (ty = type_addition \<or> ty = type_transfer \<or> ty = type_equipment \<or>
      ty = type_disbursement \<or> ty = type_return)"

definition linesFor :: "string \<Rightarrow> 'n permission \<Rightarrow> 'n line list" where
  "linesFor k p = filter (\<lambda>l. itemId l = k) (lines p)"

definition hasLineFor :: "string \<Rightarrow> 'n permission \<Rightarrow> bool" where
  "hasLineFor i p = list_ex (\<lambda>l. itemId l = i) (lines p)"

definition signedTotal :: "('n line \<Rightarrow> int) \<Rightarrow> string \<Rightarrow> 'n permission list \<Rightarrow> int" where
  "signedTotal qi k ps =
     sum_list (map (\<lambda>p. signOf (perm_type p) * sum_list (map qi (linesFor k p))) ps)"

definition cardTotal :: "('n line \<Rightarrow> int) \<Rightarrow> string \<Rightarrow> 'n permission list \<Rightarrow> int" where
  "cardTotal qi k ps =
     sum_list (map (\<lambda>p. cardSign (perm_type p) * sum_list (map qi (linesFor k p))) ps)"

definition absTotal :: "('n line \<Rightarrow> int) \<Rightarrow> string \<Rightarrow> 'n permission list \<Rightarrow> int" where
  "absTotal qi k ps =
     sum_list (map (\<lambda>p. sum_list (map (\<lambda>l. \<bar>qi l\<bar>) (linesFor k p))) ps)"

text \<open>
  Integers up to \<open>2^53\<close> in size are doubles, and a sum or difference of two of them that
  stays in that range is exact. \<open>exactOnIntegers\<close> says so of the engine's arithmetic.
\<close>

definition maxSafe :: int where
  "maxSafe = 9007199254740992"

definition exactOnIntegers :: "'n engine \<Rightarrow> bool" where
  "exactOnIntegers e =
     (num_int e 0 = num_zero e \<and>
      (\<forall>a. \<bar>a\<bar> \<le> maxSafe \<longrightarrow> num_int e a \<noteq> num_nan e) \<and>
      (\<forall>a b. \<bar>a\<bar> \<le> maxSafe \<and> \<bar>b\<bar> \<le> maxSafe \<and> \<bar>a + b\<bar> \<le> maxSafe \<longrightarrow>
         num_add e (num_int e a) (num_int e b) = num_int e (a + b)) \<and>
      (\<forall>a b. \<bar>a\<bar> \<le> maxSafe \<and> \<bar>b\<bar> \<le> maxSafe \<and> \<bar>a - b\<bar> \<le> maxSafe \<longrightarrow>
         num_sub e (num_int e a) (num_int e b) = num_int e (a - b)))"

text \<open>The rows for a list of transactions, the balance before them being \<open>b\<close>.\<close>

fun runningRows :: "'n engine \<Rightarrow> 'n \<Rightarrow> 'n tx list \<Rightarrow> 'n row list" where
  "runningRows e b [] = []"
| "runningRows e b (t # ts) =
     \<lparr>header = header t, inVal = inVal t, outVal = outVal t, tx_desc = tx_desc t,
      permNumber = permNumber t, tx_date = tx_date t,
      balance = num_add e b (num_sub e (inVal t) (outVal t))\<rparr>
     # runningRows e (num_add e b (num_sub e (inVal t) (outVal t))) ts"

text \<open>The permissions the card of item \<open>i\<close> is made from, in the order of the store.\<close>

definition cardSource :: "string \<Rightarrow> 'n store \<Rightarrow> 'n permission list" where
  "cardSource i s = filter (hasLineFor i) (filter posted (permissions s))"

text \<open>
  The time a permission is sorted by: that of its \<open>date\<close>, or of its \<open>createdAt\<close> when
  the date is absent, \<^verbatim>\<open>null\<close> or empty. \<open>None\<close> when that value does not parse.
\<close>

definition sortTime :: "'n engine \<Rightarrow> 'n permission \<Rightarrow> int option" where
  "sortTime e p =
     (case date p of
        DateStr s \<Rightarrow> (if s = [] then newDate e (createdAt p) else dateParse e s)
      | DateNull \<Rightarrow> newDate e (createdAt p)
      | DateUndefined \<Rightarrow> newDate e (createdAt p))"

definition sortKey :: "'n engine \<Rightarrow> 'n permission \<Rightarrow> int" where
  "sortKey e p = (case sortTime e p of None \<Rightarrow> 0 | Some t \<Rightarrow> t)"

text \<open>The time value of the \<open>date\<close> field of a row, 0 when it has none.\<close>

definition timeValue :: "'n engine \<Rightarrow> jsdate \<Rightarrow> int" where
  "timeValue e d = (case newDate e d of None \<Rightarrow> 0 | Some t \<Rightarrow> t)"

text \<open>A store all of whose quantities survive \<^verbatim>\<open>JSON.stringify\<close>.\<close>

definition finiteQty :: "'n engine \<Rightarrow> 'n jsqty \<Rightarrow> bool" where
  "finiteQty e q = (case q of QtyNum n \<Rightarrow> num_finite e n | _ \<Rightarrow> True)"

definition finiteStore :: "'n engine \<Rightarrow> 'n store \<Rightarrow> bool" where
  "finiteStore e s =
     list_all (\<lambda>p. list_all (\<lambda>l. finiteQty e (qty l)) (lines p)) (permissions s)"

text \<open>A well-formed store as the value of the global \<^verbatim>\<open>store\<close>.\<close>

definition storeData :: "'n store \<Rightarrow> 'n data" where
  "storeData s =
     \<lparr>d_items = Array (items s), d_warehouses = Array (warehouses s),
      d_permissions = Array (permissions s)\<rparr>"




section \<open>Example data\<close>

text \<open>
  An engine for the examples. Its numbers are the integers, two infinities and NaN; a
  sum beyond \<open>2^53\<close> is rounded to an even integer, as a double is. It parses the dates
  used below (UTC midnight, in milliseconds), compares names as byte strings, and leaves
  an array in place when the comparator is not consistent.
\<close>

datatype dnum = Fin int | PosInf | NegInf | NotANumber

definition demoRound :: "int \<Rightarrow> dnum" where
  "demoRound x = Fin (if \<bar>x\<bar> \<le> maxSafe then x else 2 * (x div 2))"

fun demoNeg :: "dnum \<Rightarrow> dnum" where
  "demoNeg (Fin a) = Fin (- a)"
| "demoNeg PosInf = NegInf"
| "demoNeg NegInf = PosInf"
| "demoNeg NotANumber = NotANumber"

fun demoAdd :: "dnum \<Rightarrow> dnum \<Rightarrow> dnum" where
  "demoAdd (Fin a) (Fin b) = demoRound (a + b)"
| "demoAdd NotANumber y = NotANumber"
| "demoAdd x NotANumber = NotANumber"
| "demoAdd PosInf NegInf = NotANumber"
| "demoAdd NegInf PosInf = NotANumber"
| "demoAdd PosInf y = PosInf"
| "demoAdd NegInf y = NegInf"
| "demoAdd x PosInf = PosInf"
| "demoAdd x NegInf = NegInf"

definition demoParse :: "string \<Rightarrow> int option" where
  "demoParse = map_of
     [(''2023-12-31'', 1703980800000), (''2024-01-01'', 1704067200000),
      (''2024-01-02'', 1704153600000), (''2024-01-04'', 1704326400000),
      (''2024-01-05'', 1704412800000), (''2024-01-06'', 1704499200000)]"

definition demoEngine :: "dnum engine" where
  "demoEngine =
     \<lparr>num_zero = Fin 0, num_nan = NotANumber, num_add = demoAdd,
      num_sub = (\<lambda>x y. demoAdd x (demoNeg y)),
      num_finite = (\<lambda>x. case x of Fin a \<Rightarrow> True | _ \<Rightarrow> False),
      num_int = demoRound,
      dateParse = demoParse,
      localeCompare = (\<lambda>a b. if a = b then 0 else if a < b then - 1 else 1),
      sortOrder = (\<lambda>cmp n. [0..<n])\<rparr>"

definition demoItem :: "string \<Rightarrow> string \<Rightarrow> item" where
  "demoItem i g =
     \<lparr>item_id = i, item_name = i, item_unit = ''piece'', item_type = ''consumable'',
      item_group = g\<rparr>"

definition demoLine :: "string \<Rightarrow> dnum \<Rightarrow> dnum line" where
  "demoLine i q = \<lparr>itemId = i, line_unit = ''piece'', qty = QtyNum q, desc = []\<rparr>"

definition demoPermission ::
  "string \<Rightarrow> string \<Rightarrow> jsdate \<Rightarrow> dnum line list \<Rightarrow> dnum permission" where
  "demoPermission n ty d ls =
     \<lparr>perm_id = n, number = n, perm_type = ty, perm_store = ''main'', perm_from = [],
      perm_to = [], date = d, subNumber = [], posted = True, postedAt = ''2024-01-06'',
      lines = ls, createdAt = DateStr ''2024-01-02''\<rparr>"

text \<open>
  The scenario of the specification: item A, an addition of 10 on 2024-01-01 and a
  disbursement of 3 on 2024-01-05; with them a draft (not posted) addition of 100.
\<close>

definition permP1 :: "dnum permission" where
  "permP1 = demoPermission ''P1'' type_addition (DateStr ''2024-01-01'') [demoLine ''A'' (Fin 10)]"

definition permP2 :: "dnum permission" where
  "permP2 =
     demoPermission ''P2'' type_disbursement (DateStr ''2024-01-05'') [demoLine ''A'' (Fin 3)]"

definition permDraft :: "dnum permission" where
  "permDraft =
     (demoPermission ''P0'' type_addition (DateStr ''2024-01-02'') [demoLine ''A'' (Fin 100)])
       \<lparr>posted := False\<rparr>"

definition demoStore :: "dnum store" where
  "demoStore =
     \<lparr>items = [demoItem ''A'' ''office'', demoItem ''B'' ''tools''], warehouses = [],
      permissions = [permP1, permDraft, permP2]\<rparr>"

text \<open>The two posted permissions, the later one first, and one without a date.\<close>

definition permNoDate :: "dnum permission" where
  "permNoDate = demoPermission ''P4'' type_addition DateUndefined [demoLine ''A'' (Fin 1)]"

definition storeLate :: "dnum store" where
  "storeLate =
     \<lparr>items = [demoItem ''A'' ''office''], warehouses = [],
      permissions = [permP2, permNoDate, permP1]\<rparr>"

text \<open>A posted permission whose type is none of the five document kinds.\<close>

definition permX :: "dnum permission" where
  "permX = demoPermission ''P3'' ''other'' (DateStr ''2024-01-02'') [demoLine ''A'' (Fin 5)]"

definition storeX :: "dnum store" where
  "storeX = \<lparr>items = [demoItem ''A'' ''office''], warehouses = [], permissions = [permX]\<rparr>"


text \<open>An item whose id is \<^verbatim>\<open>hasOwnProperty\<close>, with two posted lines.\<close>

definition storeOwn :: "dnum store" where
  "storeOwn =
     \<lparr>items = [demoItem ''hasOwnProperty'' ''office''], warehouses = [],
      permissions =
        [demoPermission ''P1'' type_addition (DateStr ''2024-01-01'')
           [demoLine ''hasOwnProperty'' (Fin 10), demoLine ''hasOwnProperty'' (Fin 5)]]\<rparr>"

text \<open>A permission whose date does not parse, between two that are out of order.\<close>

definition permSoon :: "dnum permission" where
  "permSoon = demoPermission ''P5'' type_addition (DateStr ''soon'') [demoLine ''A'' (Fin 1)]"

definition storeSoon :: "dnum store" where
  "storeSoon =
     \<lparr>items = [demoItem ''A'' ''office''], warehouses = [],
      permissions = [permP2, permSoon, permP1]\<rparr>"

text \<open>A store with an infinite quantity, as the CSV import can create.\<close>

definition storeInf :: "dnum store" where
  "storeInf =
     \<lparr>items = [demoItem ''A'' ''office''], warehouses = [],
      permissions =
        [demoPermission ''P1'' type_addition (DateStr ''2024-01-01'') [demoLine ''A'' PosInf]]\<rparr>"

definition demoApp :: "dnum app" where
  "demoApp = \<lparr>app_store = storeData demoStore, app_saved = JsonValue (storeData demoStore)\<rparr>"

definition emptyApp :: "dnum app" where
  "emptyApp =
     \<lparr>app_store = \<lparr>d_items = Array [], d_warehouses = Array [], d_permissions = Array []\<rparr>,
      app_saved = JsonNull\<rparr>"

text \<open>
  Two payloads: one without the property \<^verbatim>\<open>warehouses\<close>, and one whose \<^verbatim>\<open>items\<close> is
  a string.
\<close>

definition dataNoWarehouses :: "dnum data" where
  "dataNoWarehouses =
     \<lparr>d_items = Array [demoItem ''A'' ''office''], d_warehouses = Missing,
      d_permissions = Array []\<rparr>"

definition dataBadItems :: "dnum data" where
  "dataBadItems = \<lparr>d_items = NotArray, d_warehouses = Array [], d_permissions = Array []\<rparr>"

section \<open>Document types\<close>

lemma type_distinct:
  "type_addition \<noteq> type_transfer" "type_addition \<noteq> type_equipment"
  "type_addition \<noteq> type_disbursement" "type_addition \<noteq> type_return"
  "type_transfer \<noteq> type_equipment" "type_transfer \<noteq> type_disbursement"
  "type_transfer \<noteq> type_return" "type_equipment \<noteq> type_disbursement"
  "type_equipment \<noteq> type_return" "type_disbursement \<noteq> type_return"
  by (simp_all add: type_addition_def type_transfer_def type_equipment_def
      type_disbursement_def type_return_def)

lemma signOf_known:
  "signOf type_addition = 1" "signOf type_return = 1" "signOf type_transfer = - 1"
  "signOf type_equipment = - 1" "signOf type_disbursement = - 1"
  using type_distinct by (auto simp: signOf_def)



lemma other_unknown: "\<not> knownType ''other''"
  by (simp add: knownType_def type_addition_def type_transfer_def type_equipment_def
      type_disbursement_def type_return_def)

lemmas demo_defs = demoStore_def permP1_def permP2_def permDraft_def demoPermission_def
  demoLine_def demoItem_def

lemmas engine_defs = demoEngine_def demoRound_def maxSafe_def

section \<open>Bounds that do not parse\<close>

lemma dateLess_None [simp]: "dateLess x None = False" "dateLess None y = False"
  by (simp_all add: dateLess_def split: option.splits)

lemma permFilter_bad_fromDate:
  "newDate e (DateStr (fromDate f)) = None \<Longrightarrow>
     permFilter e f = permFilter e (f\<lparr>fromDate := []\<rparr>)"
  by (rule ext) (simp add: permFilter_def)

lemma permFilter_bad_toDate:
  "newDate e (DateStr (toDate f)) = None \<Longrightarrow>
     permFilter e f = permFilter e (f\<lparr>toDate := []\<rparr>)"
  by (rule ext) (simp add: permFilter_def)

lemma computeBalances_cong:
  assumes "selectedPermissions e f s = selectedPermissions e g s"
    and "filterItemId f = filterItemId g" and "filterGroup f = filterGroup g"
  shows "computeBalances e f s = computeBalances e g s"
  by (simp only: computeBalances_def scanBalances_def assms)

text \<open>
  Claim C6. \<open>computeBalances\<close> does not throw on account of a date: the only error of
  the model is the \<^verbatim>\<open>TypeError\<close> of \<open>hasOwnProperty\<close>, and no date enters it. When
  \<open>fromDate\<close> is a non-empty string that does not parse, its comparison is false for
  every permission, the same permissions are selected as with \<open>fromDate\<close> absent, and the
  result is the result with \<open>fromDate\<close> absent; likewise for \<open>toDate\<close>.
\<close>

theorem unparseable_bound_excludes_nothing:
  "(fromDate f \<noteq> [] \<and> dateParse e (fromDate f) = None \<longrightarrow>
      (\<forall>p. \<not> dateLess (newDate e (date p)) (newDate e (DateStr (fromDate f)))) \<and>
      selectedPermissions e f s = selectedPermissions e (f\<lparr>fromDate := []\<rparr>) s \<and>
      computeBalances e f s = computeBalances e (f\<lparr>fromDate := []\<rparr>) s) \<and>
   (toDate f \<noteq> [] \<and> dateParse e (toDate f) = None \<longrightarrow>
      (\<forall>p. \<not> dateLess (newDate e (DateStr (toDate f))) (newDate e (date p))) \<and>
      selectedPermissions e f s = selectedPermissions e (f\<lparr>toDate := []\<rparr>) s \<and>
      computeBalances e f s = computeBalances e (f\<lparr>toDate := []\<rparr>) s)"
proof -
  have from_part: "(\<forall>p. \<not> dateLess (newDate e (date p)) (newDate e (DateStr (fromDate f)))) \<and>
      selectedPermissions e f s = selectedPermissions e (f\<lparr>fromDate := []\<rparr>) s \<and>
      computeBalances e f s = computeBalances e (f\<lparr>fromDate := []\<rparr>) s"
    if "dateParse e (fromDate f) = None"
  proof -
    from that have bad: "newDate e (DateStr (fromDate f)) = None"
      by (simp add: newDate_def)
    then have sel: "selectedPermissions e f s = selectedPermissions e (f\<lparr>fromDate := []\<rparr>) s"
      by (simp add: selectedPermissions_def permFilter_bad_fromDate)
    have "computeBalances e f s = computeBalances e (f\<lparr>fromDate := []\<rparr>) s"
      by (rule computeBalances_cong [OF sel]) simp_all
    with bad sel show ?thesis
      by simp
  qed
  have to_part: "(\<forall>p. \<not> dateLess (newDate e (DateStr (toDate f))) (newDate e (date p))) \<and>
      selectedPermissions e f s = selectedPermissions e (f\<lparr>toDate := []\<rparr>) s \<and>
      computeBalances e f s = computeBalances e (f\<lparr>toDate := []\<rparr>) s"
    if "dateParse e (toDate f) = None"
  proof -
    from that have bad: "newDate e (DateStr (toDate f)) = None"
      by (simp add: newDate_def)
    then have sel: "selectedPermissions e f s = selectedPermissions e (f\<lparr>toDate := []\<rparr>) s"
      by (simp add: selectedPermissions_def permFilter_bad_toDate)
    have "computeBalances e f s = computeBalances e (f\<lparr>toDate := []\<rparr>) s"
      by (rule computeBalances_cong [OF sel]) simp_all
    with bad sel show ?thesis
      by simp
  qed
  from from_part to_part show ?thesis by blast
qed

theorem unparseable_bound_excludes_nothing_witness:
  "computeBalances demoEngine (noFilters\<lparr>fromDate := ''soon''\<rparr>) demoStore =
     computeBalances demoEngine noFilters demoStore \<and>
   computeBalances demoEngine (noFilters\<lparr>toDate := ''soon''\<rparr>) demoStore =
     computeBalances demoEngine noFilters demoStore"
proof -
  let ?f = "noFilters\<lparr>fromDate := ''soon''\<rparr>" and ?g = "noFilters\<lparr>toDate := ''soon''\<rparr>"
  have f0: "?f\<lparr>fromDate := []\<rparr> = noFilters" and g0: "?g\<lparr>toDate := []\<rparr> = noFilters"
    by (simp_all add: noFilters_def)
  have hf: "fromDate ?f \<noteq> [] \<and> dateParse demoEngine (fromDate ?f) = None"
    and hg: "toDate ?g \<noteq> [] \<and> dateParse demoEngine (toDate ?g) = None"
    by (simp_all add: demoEngine_def demoParse_def)
  from unparseable_bound_excludes_nothing [where f = ?f and e = demoEngine
      and s = demoStore] hf
  have a: "computeBalances demoEngine ?f demoStore =
           computeBalances demoEngine (?f\<lparr>fromDate := []\<rparr>) demoStore"
    by blast
  from unparseable_bound_excludes_nothing [where f = ?g and e = demoEngine
      and s = demoStore] hg
  have b: "computeBalances demoEngine ?g demoStore =
           computeBalances demoEngine (?g\<lparr>toDate := []\<rparr>) demoStore"
    by blast
  from a b show ?thesis
    unfolding f0 g0 by (rule conjI)
qed

section \<open>The scan, key by key\<close>

lemma proto_neq_own [simp]: "protoKey \<noteq> hasOwnKey" "hasOwnKey \<noteq> protoKey"
  by (simp_all add: protoKey_def hasOwnKey_def)

lemma key_names_inherited: "protoKey \<in> set protoNames" "hasOwnKey \<in> set protoNames"
  by (simp_all add: protoKey_def hasOwnKey_def protoNames_def)

lemma applyLine_ok:
  assumes "b hasOwnKey = None" and "itemId ln \<noteq> hasOwnKey"
  shows "\<exists>b'. applyLine e ty b ln = Inr b' \<and> b' hasOwnKey = None \<and>
           (\<forall>k. b' k = (if k = itemId ln \<and> k \<noteq> protoKey
                        then Some (lineStep e ty (ownOr0 e b k) ln) else b k))"
proof -
  define k0 where "k0 = itemId ln"
  define b0 where "b0 = (if b k0 \<noteq> None then b else setProp b k0 (num_zero e))"
  define q where "q = numberOr0 e (qty ln)"
  define r where "r = (if ty = type_addition then addTo e b0 k0 q
            else if ty = type_transfer then subFrom e b0 k0 q
            else if ty = type_equipment then subFrom e b0 k0 q
            else if ty = type_disbursement then subFrom e b0 k0 q
            else if ty = type_return then addTo e b0 k0 q
            else b0)"
  have eq: "applyLine e ty b ln = Inr r"
    using assms by (simp add: applyLine_def hasOwnProperty_def Let_def r_def b0_def q_def k0_def)
  define hit where "hit k \<longleftrightarrow> k = k0 \<and> k \<noteq> protoKey" for k
  have b1: "b0 k = (if hit k then Some (ownOr0 e b k) else b k)" for k
    by (auto simp: b0_def setProp_def ownOr0_def hit_def)
  have add: "addTo e b0 k0 q k = (if hit k then Some (num_add e (ownOr0 e b k) q) else b k)"
    for k
    by (auto simp: addTo_def setProp_def getProp_def b1 hit_def)
  have sub: "subFrom e b0 k0 q k = (if hit k then Some (num_sub e (ownOr0 e b k) q) else b k)"
    for k
    by (auto simp: subFrom_def setProp_def getProp_def b1 hit_def)
  have r0: "r k = (if hit k
                   then Some (if ty = type_addition \<or> ty = type_return
                              then num_add e (ownOr0 e b k) q
                              else if ty = type_transfer \<or> ty = type_equipment \<or>
                                      ty = type_disbursement
                                then num_sub e (ownOr0 e b k) q
                              else ownOr0 e b k)
                   else b k)" for k
    using type_distinct by (simp add: r_def add sub b1)
  have r: "r k = (if k = itemId ln \<and> k \<noteq> protoKey
                   then Some (lineStep e ty (ownOr0 e b k) ln) else b k)" for k
    by (simp only: r0 hit_def lineStep_def q_def k0_def)
  have "r hasOwnKey = None"
    using assms by (simp only: r) simp
  with eq r show ?thesis
    by blast
qed

lemma ownOr0_Some [simp]: "b k = Some v \<Longrightarrow> ownOr0 e b k = v"
  by (simp add: ownOr0_def)

lemma forEachE_applyLine:
  assumes "b hasOwnKey = None"
    and "\<forall>ln \<in> set ls. itemId ln \<noteq> hasOwnKey"
  shows "\<exists>b'. forEachE (applyLine e ty) b ls = Inr b' \<and> b' hasOwnKey = None \<and>
           (\<forall>k. b' k = (if k \<in> itemId ` set ls \<and> k \<noteq> protoKey
                        then Some (foldl (\<lambda>w ln. if itemId ln = k then lineStep e ty w ln else w)
                                     (ownOr0 e b k) ls)
                        else b k))"
  using assms
proof (induction ls arbitrary: b)
  case Nil
  then show ?case by simp
next
  case (Cons l ls)
  from Cons.prems obtain b1 where b1: "applyLine e ty b l = Inr b1"
    "b1 hasOwnKey = None"
    "\<And>k. b1 k = (if k = itemId l \<and> k \<noteq> protoKey
                  then Some (lineStep e ty (ownOr0 e b k) l) else b k)"
    using applyLine_ok [of b l e ty] by auto
  from Cons.IH [of b1] b1(2) Cons.prems obtain b2 where
    b2: "forEachE (applyLine e ty) b1 ls = Inr b2" "b2 hasOwnKey = None"
    "\<And>k. b2 k = (if k \<in> itemId ` set ls \<and> k \<noteq> protoKey
                  then Some (foldl (\<lambda>w ln. if itemId ln = k then lineStep e ty w ln else w)
                               (ownOr0 e b1 k) ls)
                  else b1 k)"
    by auto
  have o: "ownOr0 e b1 k = (if k = itemId l \<and> k \<noteq> protoKey
                             then lineStep e ty (ownOr0 e b k) l else ownOr0 e b k)" for k
    by (auto simp: b1(3) ownOr0_def)
  have keep: "foldl (\<lambda>w ln. if itemId ln = k then lineStep e ty w ln else w) v ls = v"
    if "k \<notin> itemId ` set ls" for k v
    using that by (induction ls arbitrary: v) auto
  have "forEachE (applyLine e ty) b (l # ls) = Inr b2"
    by (simp add: b1(1) b2(1))
  moreover have "b2 k = (if k \<in> itemId ` set (l # ls) \<and> k \<noteq> protoKey
      then Some (foldl (\<lambda>w ln. if itemId ln = k then lineStep e ty w ln else w)
                   (ownOr0 e b k) (l # ls))
      else b k)" for k
  proof (cases "k = protoKey")
    case True
    then show ?thesis by (simp add: b2(3) b1(3))
  next
    case False
    show ?thesis
    proof (cases "k \<in> itemId ` set ls")
      case True
      with False show ?thesis
        by (cases "k = itemId l") (auto simp: b2(3) o)
    next
      case notin: False
      with False show ?thesis
        by (cases "k = itemId l") (auto simp: b2(3) b1(3) keep)
    qed
  qed
  ultimately show ?case
    using b2(2) by blast
qed

lemma referenced_simps:
  "referenced [] = {}"
  "referenced (p # ps) = itemId ` set (lines p) \<union> referenced ps"
  by (simp_all add: referenced_def)

lemma referenced_iff:
  "k \<in> referenced ps \<longleftrightarrow> (\<exists>p \<in> set ps. k \<in> itemId ` set (lines p))"
  by (auto simp: referenced_def)

lemma permValue_unreferenced: "k \<notin> itemId ` set (lines p) \<Longrightarrow> permValue e k v p = v"
proof -
  have "foldl (\<lambda>w ln. if itemId ln = k then lineStep e ty w ln else w) v ls = v"
    if "k \<notin> itemId ` set ls" for ls ty
    using that by (induction ls arbitrary: v) auto
  then show "k \<notin> itemId ` set (lines p) \<Longrightarrow> permValue e k v p = v"
    by (simp add: permValue_def)
qed

lemma foldl_permValue_unreferenced:
  "k \<notin> referenced ps \<Longrightarrow> foldl (permValue e k) v ps = v"
  by (induction ps arbitrary: v) (auto simp: referenced_simps permValue_unreferenced)

lemma applyPermission_ok:
  assumes "b hasOwnKey = None"
    and "hasOwnKey \<notin> itemId ` set (lines p)"
  shows "\<exists>b'. applyPermission e b p = Inr b' \<and> b' hasOwnKey = None \<and>
           (\<forall>k. b' k = (if k \<in> itemId ` set (lines p) \<and> k \<noteq> protoKey
                        then Some (permValue e k (ownOr0 e b k) p) else b k))"
proof -
  from assms(2) have "\<forall>ln \<in> set (lines p). itemId ln \<noteq> hasOwnKey"
    by (metis imageI)
  with forEachE_applyLine [of b "lines p" e "perm_type p"] assms(1) show ?thesis
    unfolding applyPermission_def permValue_def by blast
qed

lemma forEachE_applyPermission:
  assumes "b hasOwnKey = None" and "hasOwnKey \<notin> referenced ps"
  shows "\<exists>b'. forEachE (applyPermission e) b ps = Inr b' \<and> b' hasOwnKey = None \<and>
           (\<forall>k. b' k = (if k \<in> referenced ps \<and> k \<noteq> protoKey
                        then Some (foldl (permValue e k) (ownOr0 e b k) ps) else b k))"
  using assms
proof (induction ps arbitrary: b)
  case Nil
  then show ?case by (simp add: referenced_simps)
next
  case (Cons p ps)
  from Cons.prems have np: "hasOwnKey \<notin> itemId ` set (lines p)"
    and nps: "hasOwnKey \<notin> referenced ps"
    by (simp_all add: referenced_simps)
  from applyPermission_ok [of b p e] Cons.prems(1) np obtain b1 where
    b1: "applyPermission e b p = Inr b1" "b1 hasOwnKey = None"
    "\<And>k. b1 k = (if k \<in> itemId ` set (lines p) \<and> k \<noteq> protoKey
                  then Some (permValue e k (ownOr0 e b k) p) else b k)"
    by blast
  from Cons.IH [of b1] b1(2) nps obtain b2 where
    b2: "forEachE (applyPermission e) b1 ps = Inr b2" "b2 hasOwnKey = None"
    "\<And>k. b2 k = (if k \<in> referenced ps \<and> k \<noteq> protoKey
                  then Some (foldl (permValue e k) (ownOr0 e b1 k) ps) else b1 k)"
    by blast
  have o: "ownOr0 e b1 k = (if k \<noteq> protoKey then permValue e k (ownOr0 e b k) p
                             else ownOr0 e b k)" for k
    by (cases "k \<in> itemId ` set (lines p)")
       (auto simp: b1(3) ownOr0_def permValue_unreferenced)
  have "forEachE (applyPermission e) b (p # ps) = Inr b2"
    by (simp add: b1(1) b2(1))
  moreover have "b2 k = (if k \<in> referenced (p # ps) \<and> k \<noteq> protoKey
      then Some (foldl (permValue e k) (ownOr0 e b k) (p # ps)) else b k)" for k
  proof (cases "k = protoKey")
    case True
    then show ?thesis by (simp add: b2(3) b1(3))
  next
    case False
    show ?thesis
    proof (cases "k \<in> referenced ps")
      case True
      with False show ?thesis
        by (simp add: b2(3) o referenced_simps)
    next
      case notin: False
      with False show ?thesis
        by (cases "k \<in> itemId ` set (lines p)")
           (auto simp: b2(3) b1(3) referenced_simps foldl_permValue_unreferenced)
    qed
  qed
  ultimately show ?case
    using b2(2) by blast
qed

lemma initBalances_eq:
  "initBalances e its k =
     (if k \<in> item_id ` set its \<and> k \<noteq> protoKey then Some (num_zero e) else None)"
proof -
  have "foldl (\<lambda>b it. setProp b (item_id it) (num_zero e)) b its k =
          (if k \<in> item_id ` set its \<and> k \<noteq> protoKey then Some (num_zero e) else b k)"
    for b :: "string \<rightharpoonup> 'a"
    by (induction its arbitrary: b) (auto simp: setProp_def)
  then show ?thesis by (simp add: initBalances_def)
qed

lemma permFilter_eq:
  "permFilter e f p \<longleftrightarrow>
     (filterPermType f = [] \<or> perm_type p = filterPermType f) \<and> notBefore e f p \<and>
     notAfter e f p"
  by (auto simp: permFilter_def notBefore_def notAfter_def dateLess_def split: option.splits)

lemma selectedPermissions_aggregated: "selectedPermissions e f s = aggregated e f s"
  by (simp add: selectedPermissions_def aggregated_def permFilter_eq conj_commute conj_left_commute
      cong: conj_cong)

lemma ownOr0_initBalances [simp]: "ownOr0 e (initBalances e its) k = num_zero e"
  by (simp add: ownOr0_def initBalances_eq)

lemma balanceOf_unreferenced: "k \<notin> referenced ps \<Longrightarrow> balanceOf e k ps = num_zero e"
  by (simp add: balanceOf_def foldl_permValue_unreferenced)

lemma scanBalances_ok:
  assumes "hasOwnKey \<notin> item_id ` set (items s)"
    and "hasOwnKey \<notin> referenced (aggregated e f s)"
  shows "\<exists>b. scanBalances e f s = Inr b \<and> b hasOwnKey = None \<and>
           (\<forall>k. b k = (if k \<noteq> protoKey \<and>
                           (k \<in> item_id ` set (items s) \<or> k \<in> referenced (aggregated e f s))
                        then Some (balanceOf e k (aggregated e f s)) else None))"
proof -
  have i0: "initBalances e (items s) hasOwnKey = None"
    using assms(1) by (simp add: initBalances_eq)
  from forEachE_applyPermission [of "initBalances e (items s)" "aggregated e f s" e] i0 assms(2)
  obtain b where b: "forEachE (applyPermission e) (initBalances e (items s)) (aggregated e f s) =
      Inr b" "b hasOwnKey = None"
    "\<And>k. b k = (if k \<in> referenced (aggregated e f s) \<and> k \<noteq> protoKey
                 then Some (foldl (permValue e k) (ownOr0 e (initBalances e (items s)) k)
                              (aggregated e f s))
                 else initBalances e (items s) k)"
    by blast
  have "b k = (if k \<noteq> protoKey \<and>
                  (k \<in> item_id ` set (items s) \<or> k \<in> referenced (aggregated e f s))
               then Some (balanceOf e k (aggregated e f s)) else None)" for k
    by (cases "k \<in> referenced (aggregated e f s)")
       (auto simp: b(3) initBalances_eq balanceOf_def foldl_permValue_unreferenced)
  with b(1,2) show ?thesis
    by (simp add: scanBalances_def selectedPermissions_aggregated)
qed

lemma referenced_filter_subset: "referenced (filter P ps) \<subseteq> referenced ps"
  by (induction ps) (auto simp: referenced_simps)

lemma aggregated_subset: "referenced (aggregated e f s) \<subseteq> referenced (permissions s)"
  by (simp add: aggregated_def referenced_filter_subset)

lemma storeIds_safe:
  assumes "hasOwnKey \<notin> storeIds s"
  shows "hasOwnKey \<notin> item_id ` set (items s)" and "hasOwnKey \<notin> referenced (aggregated e f s)"
  using assms aggregated_subset [of e f s] by (auto simp: storeIds_def)

lemma computeBalances_unfiltered:
  assumes "hasOwnKey \<notin> storeIds s" and "filterItemId f = []" and "filterGroup f = []"
  shows "\<exists>m. computeBalances e f s = Inr m \<and>
           (\<forall>k. m k = (if k \<noteq> protoKey \<and>
                           (k \<in> item_id ` set (items s) \<or> k \<in> referenced (aggregated e f s))
                        then Some (Number (balanceOf e k (aggregated e f s))) else None))"
proof -
  from scanBalances_ok [OF storeIds_safe [OF assms(1)], of e f] obtain b where
    b: "scanBalances e f s = Inr b"
    "\<And>k. b k = (if k \<noteq> protoKey \<and>
                     (k \<in> item_id ` set (items s) \<or> k \<in> referenced (aggregated e f s))
                  then Some (balanceOf e k (aggregated e f s)) else None)"
    by blast
  have "computeBalances e f s = Inr (\<lambda>k. map_option Number (b k))"
    using assms(2,3) by (simp add: computeBalances_def b(1))
  moreover have "map_option Number (b k) =
      (if k \<noteq> protoKey \<and>
          (k \<in> item_id ` set (items s) \<or> k \<in> referenced (aggregated e f s))
       then Some (Number (balanceOf e k (aggregated e f s))) else None)" for k
    by (simp add: b(2))
  ultimately show ?thesis
    by simp
qed

lemma aggregated_noFilters: "aggregated e noFilters s = filter posted (permissions s)"
  by (simp add: aggregated_def noFilters_def notBefore_def notAfter_def)

lemma lineStep_table:
  "lineStep e type_addition v ln = num_add e v (numberOr0 e (qty ln))"
  "lineStep e type_return v ln = num_add e v (numberOr0 e (qty ln))"
  "lineStep e type_transfer v ln = num_sub e v (numberOr0 e (qty ln))"
  "lineStep e type_equipment v ln = num_sub e v (numberOr0 e (qty ln))"
  "lineStep e type_disbursement v ln = num_sub e v (numberOr0 e (qty ln))"
  using type_distinct by (auto simp: lineStep_def)



section \<open>Sign rule of the balance calculation\<close>

lemmas scan_defs = computeBalances_def scanBalances_def selectedPermissions_def
  permFilter_def applyPermission_def applyLine_def hasOwnProperty_def setProp_def getProp_def
  addTo_def subFrom_def initBalances_def numberOr0_def toNumber_def falsyNum_def orZero_def
  protoKey_def hasOwnKey_def noFilters_def Let_def



lemma demoStore_ids: "hasOwnKey \<notin> storeIds demoStore"
  by (simp add: storeIds_def referenced_simps demo_defs hasOwnKey_def)


section \<open>Deleted items keep their balance\<close>

lemma items_removeItem: "item_id ` set (items (removeItem i s)) = item_id ` set (items s) - {i}"
  by (auto simp: removeItem_def)

lemma permissions_removeItem [simp]: "permissions (removeItem i s) = permissions s"
  by (simp add: removeItem_def)

lemma aggregated_removeItem [simp]: "aggregated e f (removeItem i s) = aggregated e f s"
  by (simp add: aggregated_def)

lemma storeIds_removeItem: "storeIds (removeItem i s) \<subseteq> storeIds s"
  by (auto simp: storeIds_def items_removeItem)

text \<open>
  Claim C3 fails as stated when the deleted item's id is \<^verbatim>\<open>hasOwnProperty\<close>: the first
  posted line for it creates the key in \<^verbatim>\<open>balances\<close>, and at the next line the call
  \<^verbatim>\<open>balances.hasOwnProperty(...)\<close> throws, so the computation fails on the dangling
  reference.
\<close>

theorem removeItem_keeps_balance_counterexample:
  "computeBalances demoEngine noFilters (removeItem ''hasOwnProperty'' storeOwn) = Inl TypeError"
  by (simp add: scan_defs removeItem_def storeOwn_def demoPermission_def demoLine_def
      demoItem_def demoEngine_def type_distinct)

text \<open>
  Claim C3, amended. Let no id of the store be \<^verbatim>\<open>hasOwnProperty\<close>, and let some posted
  permission have a line for the id \<open>i\<close>, which is not \<^verbatim>\<open>__proto__\<close>. After
  \<open>removeItem i\<close> the id is no longer among the items; the unfiltered \<open>computeBalances\<close>
  returns a mapping, as it did before, and the mapping still has an entry for \<open>i\<close>. Its
  value is the one the sign rule gives for the posted lines of \<open>i\<close>, the same as before
  the deletion, and every other entry is unchanged as well.
\<close>

theorem removeItem_keeps_balance:
  assumes "p \<in> set (permissions s)" and "posted p" and "ln \<in> set (lines p)"
    and "itemId ln = i" and "i \<noteq> protoKey" and "hasOwnKey \<notin> storeIds s"
  shows "i \<notin> item_id ` set (items (removeItem i s)) \<and>
         (\<exists>m m'. computeBalances e noFilters s = Inr m \<and>
            computeBalances e noFilters (removeItem i s) = Inr m' \<and>
            m' i = Some (Number (balanceOf e i (filter posted (permissions s)))) \<and>
            m' i = m i \<and> (\<forall>k. k \<noteq> i \<longrightarrow> m' k = m k))"
proof -
  have nf: "filterItemId noFilters = []" "filterGroup noFilters = []"
    by (simp_all add: noFilters_def)
  have safe': "hasOwnKey \<notin> storeIds (removeItem i s)"
    using assms(6) storeIds_removeItem [of i s] by auto
  from computeBalances_unfiltered [OF assms(6) nf, of e] obtain m where
    m: "computeBalances e noFilters s = Inr m"
    "\<And>k. m k = (if k \<noteq> protoKey \<and>
                     (k \<in> item_id ` set (items s) \<or>
                      k \<in> referenced (filter posted (permissions s)))
                  then Some (Number (balanceOf e k (filter posted (permissions s)))) else None)"
    unfolding aggregated_noFilters by blast
  from computeBalances_unfiltered [OF safe' nf, of e] obtain m' where
    m': "computeBalances e noFilters (removeItem i s) = Inr m'"
    "\<And>k. m' k = (if k \<noteq> protoKey \<and>
                      (k \<in> item_id ` set (items (removeItem i s)) \<or>
                       k \<in> referenced (filter posted (permissions s)))
                   then Some (Number (balanceOf e k (filter posted (permissions s)))) else None)"
    unfolding aggregated_noFilters aggregated_removeItem permissions_removeItem by blast
  have ref: "i \<in> referenced (filter posted (permissions s))"
    using assms(1-4) by (auto simp: referenced_iff)
  have "m' i = Some (Number (balanceOf e i (filter posted (permissions s))))"
    using ref assms(5) by (simp add: m'(2))
  moreover have "m' i = m i"
    using ref assms(5) by (simp add: m'(2) m(2))
  moreover have "\<forall>k. k \<noteq> i \<longrightarrow> m' k = m k"
    by (auto simp: m'(2) m(2) items_removeItem)
  moreover have "i \<notin> item_id ` set (items (removeItem i s))"
    by (simp add: items_removeItem)
  ultimately show ?thesis
    using m(1) m'(1) by blast
qed

theorem removeItem_keeps_balance_witness:
  "''A'' \<notin> item_id ` set (items (removeItem ''A'' demoStore)) \<and>
   (\<exists>m'. computeBalances demoEngine noFilters (removeItem ''A'' demoStore) = Inr m' \<and>
      m' ''A'' = Some (Number (Fin 7)))"
proof -
  have h: "permP1 \<in> set (permissions demoStore)" "posted permP1"
    "demoLine ''A'' (Fin 10) \<in> set (lines permP1)" "itemId (demoLine ''A'' (Fin 10)) = ''A''"
    "''A'' \<noteq> protoKey"
    by (simp_all add: demo_defs protoKey_def)
  have bal: "balanceOf demoEngine ''A'' (filter posted (permissions demoStore)) = Fin 7"
    by (simp add: balanceOf_def permValue_def lineStep_table demo_defs numberOr0_def
        toNumber_def falsyNum_def engine_defs)
  from removeItem_keeps_balance [OF h demoStore_ids, of demoEngine] show ?thesis
    unfolding bal by blast
qed

section \<open>Precedence of the item filter\<close>

lemma permFilter_filterGroup [simp]:
  "permFilter e (f\<lparr>filterGroup := g\<rparr>) = permFilter e f"
  by (rule ext) (simp add: permFilter_def)

lemma scanBalances_filterGroup [simp]:
  "scanBalances e (f\<lparr>filterGroup := g\<rparr>) s = scanBalances e f s"
  by (simp add: scanBalances_def selectedPermissions_def)

lemma aggregated_filterGroup [simp]:
  "aggregated e (f\<lparr>filterGroup := g\<rparr>) s = aggregated e f s"
  by (simp add: aggregated_def notBefore_def notAfter_def)

lemma computeBalances_item:
  "filterItemId f \<noteq> [] \<Longrightarrow>
     computeBalances e f s =
       (case scanBalances e f s of Inl err \<Rightarrow> Inl err
        | Inr b \<Rightarrow> Inr (setProp Map.empty (filterItemId f)
                           (orZero e (getProp b (filterItemId f)))))"
  by (simp add: computeBalances_def split: sum.splits)

lemma dom_setProp_empty:
  "dom (setProp Map.empty k v) = (if k = protoKey then {} else {k})"
  by (simp add: setProp_def)

text \<open>
  Claim C4 fails as stated for the item id \<^verbatim>\<open>__proto__\<close>: the assignment
  \<^verbatim>\<open>out[filterItemId] = ...\<close> creates no property under that name, and the result has
  no entry at all.
\<close>

theorem filterItemId_precedence_counterexample:
  "computeBalances demoEngine
     (noFilters\<lparr>filterItemId := ''__proto__'', filterGroup := ''tools''\<rparr>) demoStore =
   Inr Map.empty"
  by (simp add: scan_defs demo_defs demoEngine_def demoRound_def maxSafe_def demoParse_def
      newDate_def dateLess_def type_distinct)

text \<open>
  Claim C4, amended. With a non-empty \<open>filterItemId\<close>, the result of \<open>computeBalances\<close>
  is the same whatever \<open>filterGroup\<close> is, in particular the one obtained with
  \<open>filterGroup\<close> absent. When it is a mapping, it has exactly one entry, keyed by
  \<open>filterItemId\<close>, unless \<open>filterItemId\<close> is \<^verbatim>\<open>__proto__\<close>, for which it has none. It is
  a mapping when no id of the store is \<^verbatim>\<open>hasOwnProperty\<close>, and for a \<open>filterItemId\<close>
  that is not an inherited name the value of the entry is the balance of that item (0
  for a falsy balance).
\<close>

theorem filterItemId_precedence:
  assumes "filterItemId f \<noteq> []"
  shows "computeBalances e (f\<lparr>filterGroup := g\<rparr>) s =
           computeBalances e (f\<lparr>filterGroup := []\<rparr>) s \<and>
         (\<forall>m. computeBalances e (f\<lparr>filterGroup := g\<rparr>) s = Inr m \<longrightarrow>
            dom m = (if filterItemId f = protoKey then {} else {filterItemId f})) \<and>
         (hasOwnKey \<notin> storeIds s \<longrightarrow>
            (\<exists>m. computeBalances e (f\<lparr>filterGroup := g\<rparr>) s = Inr m \<and>
               (filterItemId f \<notin> set protoNames \<longrightarrow>
                  m (filterItemId f) =
                    Some (Number (if falsyNum e (balanceOf e (filterItemId f) (aggregated e f s))
                                  then num_zero e
                                  else balanceOf e (filterItemId f) (aggregated e f s))))))"
proof -
  let ?i = "filterItemId f"
  have cb: "computeBalances e (f\<lparr>filterGroup := h\<rparr>) s =
       (case scanBalances e f s of Inl err \<Rightarrow> Inl err
        | Inr b \<Rightarrow> Inr (setProp Map.empty ?i (orZero e (getProp b ?i))))" for h
    using assms by (simp add: computeBalances_item split: sum.splits)
  have same: "computeBalances e (f\<lparr>filterGroup := g\<rparr>) s =
              computeBalances e (f\<lparr>filterGroup := []\<rparr>) s"
    by (simp only: cb)
  have one: "\<forall>m. computeBalances e (f\<lparr>filterGroup := g\<rparr>) s = Inr m \<longrightarrow>
            dom m = (if ?i = protoKey then {} else {?i})"
  proof (intro allI impI)
    fix m
    assume "computeBalances e (f\<lparr>filterGroup := g\<rparr>) s = Inr m"
    then obtain b where "m = setProp Map.empty ?i (orZero e (getProp b ?i))"
      by (auto simp: cb split: sum.splits)
    then show "dom m = (if ?i = protoKey then {} else {?i})"
      by (simp only: dom_setProp_empty)
  qed
  have val: "\<exists>m. computeBalances e (f\<lparr>filterGroup := g\<rparr>) s = Inr m \<and>
               (?i \<notin> set protoNames \<longrightarrow>
                  m ?i = Some (Number (if falsyNum e (balanceOf e ?i (aggregated e f s))
                                       then num_zero e
                                       else balanceOf e ?i (aggregated e f s))))"
    if safe: "hasOwnKey \<notin> storeIds s"
  proof -
    from scanBalances_ok [OF storeIds_safe [OF safe], of e f] obtain b where
      b: "scanBalances e f s = Inr b"
      "\<And>k. b k = (if k \<noteq> protoKey \<and>
                       (k \<in> item_id ` set (items s) \<or> k \<in> referenced (aggregated e f s))
                    then Some (balanceOf e k (aggregated e f s)) else None)"
      by blast
    have "setProp Map.empty ?i (orZero e (getProp b ?i)) ?i =
            Some (Number (if falsyNum e (balanceOf e ?i (aggregated e f s))
                          then num_zero e
                          else balanceOf e ?i (aggregated e f s)))"
      if np: "?i \<notin> set protoNames"
    proof -
      from np key_names_inherited have ne: "?i \<noteq> protoKey"
        by auto
      show ?thesis
      proof (cases "?i \<in> item_id ` set (items s) \<or> ?i \<in> referenced (aggregated e f s)")
        case True
        with ne have "b ?i = Some (balanceOf e ?i (aggregated e f s))"
          by (simp add: b(2))
        with ne show ?thesis
          by (simp add: setProp_def getProp_def orZero_def)
      next
        case False
        then have "b ?i = None"
          by (simp add: b(2))
        moreover from False have "balanceOf e ?i (aggregated e f s) = num_zero e"
          by (simp add: balanceOf_unreferenced)
        ultimately show ?thesis
          using ne np by (simp add: setProp_def getProp_def orZero_def falsyNum_def)
      qed
    qed
    then show ?thesis
      by (simp add: cb b(1))
  qed
  from same one val show ?thesis
    by blast
qed

theorem filterItemId_precedence_witness:
  "computeBalances demoEngine (noFilters\<lparr>filterItemId := ''A'', filterGroup := ''tools''\<rparr>)
     demoStore =
   computeBalances demoEngine (noFilters\<lparr>filterItemId := ''A'', filterGroup := []\<rparr>)
     demoStore \<and>
   (\<exists>m. computeBalances demoEngine
           (noFilters\<lparr>filterItemId := ''A'', filterGroup := ''tools''\<rparr>) demoStore = Inr m \<and>
        dom m = {''A''} \<and> m ''A'' = Some (Number (Fin 7)))"
proof -
  let ?f = "noFilters\<lparr>filterItemId := ''A''\<rparr>"
  have fid: "filterItemId ?f = ''A''" and ne: "filterItemId ?f \<noteq> []"
    by simp_all
  have plain: "''A'' \<noteq> protoKey" "''A'' \<notin> set protoNames"
    by (simp_all add: protoKey_def protoNames_def)
  have agg: "aggregated demoEngine ?f demoStore = [permP1, permP2]"
    by (simp add: aggregated_def noFilters_def notBefore_def notAfter_def demo_defs)
  have bal: "balanceOf demoEngine ''A'' [permP1, permP2] = Fin 7"
    by (simp add: balanceOf_def permValue_def lineStep_table demo_defs numberOr0_def
        toNumber_def falsyNum_def engine_defs)
  have nz: "\<not> falsyNum demoEngine (Fin 7)"
    by (simp add: falsyNum_def demoEngine_def)
  have ifeq: "(if falsyNum demoEngine (Fin 7) then num_zero demoEngine else Fin 7) = Fin 7"
    and ifeq': "(if ''A'' = protoKey then {} else {''A''}) = {''A''}"
    using nz plain(1) by simp_all
  note w = filterItemId_precedence [OF ne, where e = demoEngine and g = "''tools''"
      and s = demoStore, unfolded fid agg bal ifeq ifeq']
  from w have same: "computeBalances demoEngine (?f\<lparr>filterGroup := ''tools''\<rparr>) demoStore =
      computeBalances demoEngine (?f\<lparr>filterGroup := []\<rparr>) demoStore"
    by blast
  from w demoStore_ids plain(2) obtain m where
    m: "computeBalances demoEngine (?f\<lparr>filterGroup := ''tools''\<rparr>) demoStore = Inr m"
    "m ''A'' = Some (Number (Fin 7))"
    by blast
  from w m(1) have "dom m = {''A''}"
    by blast
  with same m show ?thesis
    by blast
qed

section \<open>Inclusive date bounds\<close>












section \<open>The sort of the item card\<close>

lemma mset_insertBy: "mset (insertBy cmp x ys) = add_mset x (mset ys)"
  by (induction ys) simp_all

lemma mset_foldr_insertBy: "mset (foldr (insertBy cmp) xs []) = mset xs"
  by (induction xs) (simp_all add: mset_insertBy)

lemma mset_engineOrder: "mset (engineOrder e cmp xs) = mset xs"
proof -
  have "mset (map (\<lambda>i. xs ! i) order) = mset xs" if "sort order = [0..<length xs]"
    for order :: "nat list"
  proof -
    have "mset order = mset [0..<length xs]"
      using that by (metis mset_sort)
    then have "mset (map (\<lambda>i. xs ! i) order) = mset (map (\<lambda>i. xs ! i) [0..<length xs])"
      by (metis mset_map)
    then show ?thesis
      by (simp add: map_nth)
  qed
  then show ?thesis
    by (simp add: engineOrder_def Let_def)
qed

lemma mset_arraySort: "mset (arraySort e cmp xs) = mset xs"
  by (simp add: arraySort_def mset_foldr_insertBy mset_engineOrder)

lemma set_arraySort: "set (arraySort e cmp xs) = set xs"
  using mset_arraySort [of e cmp xs] by (metis set_mset_mset)

lemma sum_list_arraySort:
  fixes g :: "'a \<Rightarrow> 'b::comm_monoid_add"
  shows "sum_list (map g (arraySort e cmp xs)) = sum_list (map g xs)"
proof -
  have "mset (map g (arraySort e cmp xs)) = mset (map g xs)"
    by (simp add: mset_arraySort)
  then show ?thesis
    by (metis sum_mset_sum_list)
qed

section \<open>The rows of the item card\<close>

lemma cardPermissions_eq:
  "cardPermissions e i s = arraySort e (compareDates e) (cardSource i s)"
  by (simp add: cardPermissions_def cardSource_def hasLineFor_def)

lemma mset_cardPermissions: "mset (cardPermissions e i s) = mset (cardSource i s)"
  by (simp add: cardPermissions_eq mset_arraySort)

lemma set_cardPermissions:
  "set (cardPermissions e i s) = {p \<in> set (permissions s). posted p \<and> hasLineFor i p}"
  by (auto simp: cardPermissions_eq set_arraySort cardSource_def)

lemma foldl_pushRow:
  "foldl (pushRow e) (rs, b) ts =
     (rs @ runningRows e b ts,
      foldl (\<lambda>v t. num_add e v (num_sub e (inVal t) (outVal t))) b ts)"
  by (induction ts arbitrary: rs b) (simp_all add: pushRow_def Let_def)

lemma rows_getItemCard:
  "rows (getItemCard e i s) = runningRows e (num_zero e) (cardTxs e i s)"
  by (simp add: getItemCard_def Let_def foldl_pushRow)

lemma balance_getItemCard:
  "card_balance (getItemCard e i s) =
     foldl (\<lambda>v t. num_add e v (num_sub e (inVal t) (outVal t))) (num_zero e) (cardTxs e i s)"
  by (simp add: getItemCard_def Let_def foldl_pushRow)

lemma tx_fields_runningRows:
  "map header (runningRows e b ts) = map header ts"
  "map inVal (runningRows e b ts) = map inVal ts"
  "map outVal (runningRows e b ts) = map outVal ts"
  "map tx_date (runningRows e b ts) = map tx_date ts"
  by (induction ts arbitrary: b) simp_all

lemma length_runningRows [simp]: "length (runningRows e b ts) = length ts"
  by (induction ts arbitrary: b) simp_all

lemma runningRows_Nil_iff [simp]: "runningRows e b ts = [] \<longleftrightarrow> ts = []"
  by (cases ts) simp_all

lemma last_runningRows:
  "ts \<noteq> [] \<Longrightarrow>
     balance (last (runningRows e b ts)) =
       foldl (\<lambda>v t. num_add e v (num_sub e (inVal t) (outVal t))) b ts"
proof (induction ts arbitrary: b)
  case Nil
  then show ?case by simp
next
  case (Cons t ts)
  show ?case
  proof (cases "ts = []")
    case True
    then show ?thesis by simp
  next
    case False
    then show ?thesis
      using Cons.IH [OF False, of "num_add e b (num_sub e (inVal t) (outVal t))"] by simp
  qed
qed


lemma card_balance_last:
  "card_balance (getItemCard e i s) =
     (if rows (getItemCard e i s) = [] then num_zero e
      else balance (last (rows (getItemCard e i s))))"
  by (simp add: rows_getItemCard balance_getItemCard last_runningRows)




lemma hasLineFor_iff: "hasLineFor i p \<longleftrightarrow> i \<in> itemId ` set (lines p)"
  by (auto simp: hasLineFor_def list_ex_iff)

lemma linesFor_unreferenced: "k \<notin> itemId ` set (lines p) \<Longrightarrow> linesFor k p = []"
  by (auto simp: linesFor_def filter_empty_conv)


section \<open>Integer quantities\<close>

lemma exactD:
  assumes "exactOnIntegers e"
  shows "num_int e 0 = num_zero e"
    and "\<bar>a\<bar> \<le> maxSafe \<Longrightarrow> num_int e a \<noteq> num_nan e"
    and "\<bar>a\<bar> \<le> maxSafe \<Longrightarrow> \<bar>b\<bar> \<le> maxSafe \<Longrightarrow> \<bar>a + b\<bar> \<le> maxSafe \<Longrightarrow>
           num_add e (num_int e a) (num_int e b) = num_int e (a + b)"
    and "\<bar>a\<bar> \<le> maxSafe \<Longrightarrow> \<bar>b\<bar> \<le> maxSafe \<Longrightarrow> \<bar>a - b\<bar> \<le> maxSafe \<Longrightarrow>
           num_sub e (num_int e a) (num_int e b) = num_int e (a - b)"
  using assms unfolding exactOnIntegers_def by blast+

lemma maxSafe_nonneg: "0 \<le> maxSafe"
  by (simp add: maxSafe_def)

lemma numberOr0_int:
  assumes "exactOnIntegers e" and "\<bar>q\<bar> \<le> maxSafe"
  shows "numberOr0 e (QtyNum (num_int e q)) = num_int e q"
  using exactD(2) [OF assms] by (auto simp: numberOr0_def toNumber_def falsyNum_def)

lemma sign_bound:
  fixes s c q :: int
  assumes "s = - 1 \<or> s = 0 \<or> s = 1"
  shows "\<bar>c + s * q\<bar> \<le> \<bar>c\<bar> + \<bar>q\<bar>"
  using assms by auto

lemma signOf_cases: "signOf ty = - 1 \<or> signOf ty = 0 \<or> signOf ty = 1"
  by (simp add: signOf_def)

lemma cardSign_cases: "cardSign ty = - 1 \<or> cardSign ty = 0 \<or> cardSign ty = 1"
  by (simp add: cardSign_def)

lemma lineStep_int:
  assumes ex: "exactOnIntegers e" and q: "qty ln = QtyNum (num_int e q)"
    and b: "\<bar>c\<bar> + \<bar>q\<bar> \<le> maxSafe"
  shows "lineStep e ty (num_int e c) ln = num_int e (c + signOf ty * q)"
proof -
  from b have c: "\<bar>c\<bar> \<le> maxSafe" and q': "\<bar>q\<bar> \<le> maxSafe"
    and p: "\<bar>c + q\<bar> \<le> maxSafe" and m: "\<bar>c - q\<bar> \<le> maxSafe"
    by auto
  have n: "numberOr0 e (qty ln) = num_int e q"
    by (simp add: q numberOr0_int [OF ex q'])
  show ?thesis
    using type_distinct
    by (auto simp: lineStep_def signOf_def n exactD(3) [OF ex c q' p] exactD(4) [OF ex c q' m])
qed

lemma lineTx_int:
  assumes ex: "exactOnIntegers e" and q: "qty ln = QtyNum (num_int e q)"
    and b: "\<bar>c\<bar> + \<bar>q\<bar> \<le> maxSafe"
  shows "num_add e (num_int e c)
           (num_sub e (inVal (lineTx e p ln)) (outVal (lineTx e p ln))) =
         num_int e (c + cardSign (perm_type p) * q)"
proof -
  from b have c: "\<bar>c\<bar> \<le> maxSafe" and q': "\<bar>q\<bar> \<le> maxSafe" and mq: "\<bar>- q\<bar> \<le> maxSafe"
    and p: "\<bar>c + q\<bar> \<le> maxSafe" and m: "\<bar>c + - q\<bar> \<le> maxSafe"
    by auto
  have z: "\<bar>0::int\<bar> \<le> maxSafe"
    by (simp add: maxSafe_nonneg)
  have n: "numberOr0 e (qty ln) = num_int e q"
    by (simp add: q numberOr0_int [OF ex q'])
  have s1: "num_sub e (num_int e q) (num_zero e) = num_int e q"
    using exactD(4) [OF ex q' z] q' by (simp add: exactD(1) [OF ex])
  have s2: "num_sub e (num_zero e) (num_int e q) = num_int e (- q)"
    using exactD(4) [OF ex z q'] q' by (simp add: exactD(1) [OF ex])
  show ?thesis
    by (simp add: lineTx_def Let_def cardSign_def n s1 s2 exactD(3) [OF ex c q' p]
        exactD(3) [OF ex c mq m])
qed

lemma foldl_lineStep_int:
  assumes ex: "exactOnIntegers e"
  shows "(\<forall>l \<in> set ls. itemId l = k \<longrightarrow> qty l = QtyNum (num_int e (qi l))) \<Longrightarrow>
     \<bar>c\<bar> + sum_list (map (\<lambda>l. \<bar>qi l\<bar>) (filter (\<lambda>l. itemId l = k) ls)) \<le> maxSafe \<Longrightarrow>
     foldl (\<lambda>w ln. if itemId ln = k then lineStep e ty w ln else w) (num_int e c) ls =
       num_int e (c + signOf ty * sum_list (map qi (filter (\<lambda>l. itemId l = k) ls)))"
proof (induction ls arbitrary: c)
  case Nil
  then show ?case by simp
next
  case (Cons l ls)
  show ?case
  proof (cases "itemId l = k")
    case False
    with Cons.prems Cons.IH [of c] show ?thesis
      by simp
  next
    case True
    let ?R = "sum_list (map (\<lambda>l. \<bar>qi l\<bar>) (filter (\<lambda>l. itemId l = k) ls))"
    let ?c = "c + signOf ty * qi l"
    from True Cons.prems(1) have q: "qty l = QtyNum (num_int e (qi l))"
      by simp
    have R: "0 \<le> ?R"
      by (rule sum_list_nonneg) auto
    from True Cons.prems(2) have b: "\<bar>c\<bar> + \<bar>qi l\<bar> + ?R \<le> maxSafe"
      by simp
    with R have b1: "\<bar>c\<bar> + \<bar>qi l\<bar> \<le> maxSafe"
      by simp
    have st: "lineStep e ty (num_int e c) l = num_int e ?c"
      by (rule lineStep_int [OF ex q b1])
    from sign_bound [OF signOf_cases, of c ty "qi l"] b have b2: "\<bar>?c\<bar> + ?R \<le> maxSafe"
      by simp
    from Cons.prems(1) have rest: "\<forall>l \<in> set ls. itemId l = k \<longrightarrow> qty l = QtyNum (num_int e (qi l))"
      by simp
    have "foldl (\<lambda>w ln. if itemId ln = k then lineStep e ty w ln else w) (num_int e ?c) ls =
          num_int e (?c + signOf ty * sum_list (map qi (filter (\<lambda>l. itemId l = k) ls)))"
      by (rule Cons.IH [OF rest b2])
    with True st show ?thesis
      by (simp add: algebra_simps)
  qed
qed

lemma permValue_int:
  assumes "exactOnIntegers e"
    and "\<forall>l \<in> set (lines p). itemId l = k \<longrightarrow> qty l = QtyNum (num_int e (qi l))"
    and "\<bar>c\<bar> + sum_list (map (\<lambda>l. \<bar>qi l\<bar>) (linesFor k p)) \<le> maxSafe"
  shows "permValue e k (num_int e c) p =
         num_int e (c + signOf (perm_type p) * sum_list (map qi (linesFor k p)))"
  using foldl_lineStep_int [OF assms(1,2), of c "perm_type p"] assms(3)
  by (simp add: permValue_def linesFor_def)

lemma sum_list_abs_le:
  fixes g :: "'a \<Rightarrow> int"
  shows "\<bar>sum_list (map g xs)\<bar> \<le> sum_list (map (\<lambda>x. \<bar>g x\<bar>) xs)"
  by (induction xs) auto

lemma foldl_permValue_int:
  assumes ex: "exactOnIntegers e"
  shows "(\<forall>p \<in> set ps. \<forall>l \<in> set (lines p). itemId l = k \<longrightarrow>
            qty l = QtyNum (num_int e (qi l))) \<Longrightarrow>
     \<bar>c\<bar> + absTotal qi k ps \<le> maxSafe \<Longrightarrow>
     foldl (permValue e k) (num_int e c) ps = num_int e (c + signedTotal qi k ps)"
proof (induction ps arbitrary: c)
  case Nil
  then show ?case by (simp add: signedTotal_def)
next
  case (Cons p ps)
  let ?A = "sum_list (map (\<lambda>l. \<bar>qi l\<bar>) (linesFor k p))"
  let ?S = "sum_list (map qi (linesFor k p))"
  let ?c = "c + signOf (perm_type p) * ?S"
  have "0 \<le> sum_list (map (\<lambda>l. \<bar>qi l\<bar>) ls)" for ls :: "'a line list"
    by (induction ls) auto
  then have A: "0 \<le> absTotal qi k ps"
    unfolding absTotal_def by (induction ps) (auto intro: add_nonneg_nonneg)
  from Cons.prems(2) have b: "\<bar>c\<bar> + ?A + absTotal qi k ps \<le> maxSafe"
    by (simp add: absTotal_def)
  with A have b1: "\<bar>c\<bar> + ?A \<le> maxSafe"
    by simp
  from Cons.prems(1) have q: "\<forall>l \<in> set (lines p). itemId l = k \<longrightarrow>
      qty l = QtyNum (num_int e (qi l))"
    by simp
  have st: "permValue e k (num_int e c) p = num_int e ?c"
    by (rule permValue_int [OF ex q b1])
  have "\<bar>?c\<bar> \<le> \<bar>c\<bar> + \<bar>?S\<bar>"
    by (rule sign_bound [OF signOf_cases])
  also have "\<dots> \<le> \<bar>c\<bar> + ?A"
    using sum_list_abs_le [of qi "linesFor k p"] by simp
  finally have b2: "\<bar>?c\<bar> + absTotal qi k ps \<le> maxSafe"
    using b by simp
  from Cons.prems(1) have rest: "\<forall>p \<in> set ps. \<forall>l \<in> set (lines p). itemId l = k \<longrightarrow>
      qty l = QtyNum (num_int e (qi l))"
    by simp
  have "foldl (permValue e k) (num_int e ?c) ps = num_int e (?c + signedTotal qi k ps)"
    by (rule Cons.IH [OF rest b2])
  with st show ?case
    by (simp add: signedTotal_def algebra_simps)
qed

lemma balanceOf_int:
  assumes "exactOnIntegers e"
    and "\<forall>p \<in> set ps. \<forall>l \<in> set (lines p). itemId l = k \<longrightarrow> qty l = QtyNum (num_int e (qi l))"
    and "absTotal qi k ps \<le> maxSafe"
  shows "balanceOf e k ps = num_int e (signedTotal qi k ps)"
  using foldl_permValue_int [OF assms(1,2), of 0] assms(3)
  by (simp add: balanceOf_def exactD(1) [OF assms(1)])

lemma foldl_lineTx_int:
  assumes ex: "exactOnIntegers e"
  shows "(\<forall>l \<in> set ls. qty l = QtyNum (num_int e (qi l))) \<Longrightarrow>
     \<bar>c\<bar> + sum_list (map (\<lambda>l. \<bar>qi l\<bar>) ls) \<le> maxSafe \<Longrightarrow>
     foldl (\<lambda>v t. num_add e v (num_sub e (inVal t) (outVal t))) (num_int e c)
       (map (lineTx e p) ls) =
     num_int e (c + cardSign (perm_type p) * sum_list (map qi ls))"
proof (induction ls arbitrary: c)
  case Nil
  then show ?case by simp
next
  case (Cons l ls)
  let ?R = "sum_list (map (\<lambda>l. \<bar>qi l\<bar>) ls)"
  let ?c = "c + cardSign (perm_type p) * qi l"
  from Cons.prems(1) have q: "qty l = QtyNum (num_int e (qi l))"
    by simp
  have R: "0 \<le> ?R"
    by (induction ls) auto
  from Cons.prems(2) have b: "\<bar>c\<bar> + \<bar>qi l\<bar> + ?R \<le> maxSafe"
    by simp
  with R have b1: "\<bar>c\<bar> + \<bar>qi l\<bar> \<le> maxSafe"
    by simp
  have st: "num_add e (num_int e c) (num_sub e (inVal (lineTx e p l)) (outVal (lineTx e p l))) =
            num_int e ?c"
    by (rule lineTx_int [OF ex q b1])
  from sign_bound [OF cardSign_cases, of c "perm_type p" "qi l"] b
  have b2: "\<bar>?c\<bar> + ?R \<le> maxSafe"
    by simp
  from Cons.prems(1) have rest: "\<forall>l \<in> set ls. qty l = QtyNum (num_int e (qi l))"
    by simp
  have "foldl (\<lambda>v t. num_add e v (num_sub e (inVal t) (outVal t))) (num_int e ?c)
          (map (lineTx e p) ls) =
        num_int e (?c + cardSign (perm_type p) * sum_list (map qi ls))"
    by (rule Cons.IH [OF rest b2])
  with st show ?case
    by (simp add: algebra_simps)
qed

lemma absTotal_nonneg: "0 \<le> absTotal qi k ps"
proof -
  have "0 \<le> sum_list (map (\<lambda>l. \<bar>qi l\<bar>) ls)" for ls :: "'a line list"
    by (induction ls) auto
  then show ?thesis
    unfolding absTotal_def by (induction ps) (auto intro: add_nonneg_nonneg)
qed

lemma foldl_cardTxs_int:
  assumes ex: "exactOnIntegers e"
  shows "(\<forall>p \<in> set ps. \<forall>l \<in> set (lines p). itemId l = i \<longrightarrow>
            qty l = QtyNum (num_int e (qi l))) \<Longrightarrow>
     \<bar>c\<bar> + absTotal qi i ps \<le> maxSafe \<Longrightarrow>
     foldl (\<lambda>v t. num_add e v (num_sub e (inVal t) (outVal t))) (num_int e c)
       (concat (map (permissionTxs e i) ps)) =
     num_int e (c + cardTotal qi i ps)"
proof (induction ps arbitrary: c)
  case Nil
  then show ?case by (simp add: cardTotal_def)
next
  case (Cons p ps)
  let ?A = "sum_list (map (\<lambda>l. \<bar>qi l\<bar>) (linesFor i p))"
  let ?S = "sum_list (map qi (linesFor i p))"
  let ?c = "c + cardSign (perm_type p) * ?S"
  from Cons.prems(2) have b: "\<bar>c\<bar> + ?A + absTotal qi i ps \<le> maxSafe"
    by (simp add: absTotal_def)
  with absTotal_nonneg [of qi i ps] have b1: "\<bar>c\<bar> + ?A \<le> maxSafe"
    by simp
  from Cons.prems(1) have q: "\<forall>l \<in> set (linesFor i p). qty l = QtyNum (num_int e (qi l))"
    by (simp add: linesFor_def)
  have st: "foldl (\<lambda>v t. num_add e v (num_sub e (inVal t) (outVal t))) (num_int e c)
              (permissionTxs e i p) = num_int e ?c"
    using foldl_lineTx_int [OF ex q b1, of p] by (simp add: permissionTxs_def linesFor_def)
  have "\<bar>?c\<bar> \<le> \<bar>c\<bar> + \<bar>?S\<bar>"
    by (rule sign_bound [OF cardSign_cases])
  also have "\<dots> \<le> \<bar>c\<bar> + ?A"
    using sum_list_abs_le [of qi "linesFor i p"] by simp
  finally have b2: "\<bar>?c\<bar> + absTotal qi i ps \<le> maxSafe"
    using b by simp
  from Cons.prems(1) have rest: "\<forall>p \<in> set ps. \<forall>l \<in> set (lines p). itemId l = i \<longrightarrow>
      qty l = QtyNum (num_int e (qi l))"
    by simp
  have "foldl (\<lambda>v t. num_add e v (num_sub e (inVal t) (outVal t))) (num_int e ?c)
          (concat (map (permissionTxs e i) ps)) = num_int e (?c + cardTotal qi i ps)"
    by (rule Cons.IH [OF rest b2])
  with st show ?case
    by (simp add: cardTotal_def algebra_simps)
qed

lemma totals_filter:
  "cardTotal qi i (filter (hasLineFor i) ps) = cardTotal qi i ps"
  "absTotal qi i (filter (hasLineFor i) ps) = absTotal qi i ps"
  by (induction ps)
     (simp_all add: cardTotal_def absTotal_def hasLineFor_iff linesFor_unreferenced)

lemma totals_arraySort:
  "cardTotal qi i (arraySort e cmp ps) = cardTotal qi i ps"
  "absTotal qi i (arraySort e cmp ps) = absTotal qi i ps"
  by (simp_all add: cardTotal_def absTotal_def sum_list_arraySort)

lemma card_balance_int:
  assumes ex: "exactOnIntegers e"
    and ints: "\<forall>p \<in> set (permissions s). posted p \<longrightarrow>
                 (\<forall>l \<in> set (lines p). itemId l = i \<longrightarrow> qty l = QtyNum (num_int e (qi l)))"
    and bound: "absTotal qi i (filter posted (permissions s)) \<le> maxSafe"
  shows "card_balance (getItemCard e i s) =
         num_int e (cardTotal qi i (filter posted (permissions s)))"
proof -
  have q: "\<forall>p \<in> set (cardPermissions e i s). \<forall>l \<in> set (lines p). itemId l = i \<longrightarrow>
      qty l = QtyNum (num_int e (qi l))"
    using ints unfolding set_cardPermissions by blast
  have a: "absTotal qi i (cardPermissions e i s) = absTotal qi i (filter posted (permissions s))"
    and c: "cardTotal qi i (cardPermissions e i s) =
            cardTotal qi i (filter posted (permissions s))"
    by (simp_all only: cardPermissions_eq totals_arraySort cardSource_def totals_filter)
  from bound a have b: "\<bar>0\<bar> + absTotal qi i (cardPermissions e i s) \<le> maxSafe"
    by simp
  from foldl_cardTxs_int [OF ex q b] show ?thesis
    by (simp add: balance_getItemCard cardTxs_def exactD(1) [OF ex] c)
qed

lemma cardSign_known: "knownType ty \<Longrightarrow> cardSign ty = signOf ty"
  using type_distinct by (auto simp: knownType_def cardSign_def signOf_def)

lemma cardTotal_signedTotal:
  assumes "\<forall>p \<in> set ps. hasLineFor i p \<longrightarrow> knownType (perm_type p)"
  shows "cardTotal qi i ps = signedTotal qi i ps"
  using assms
proof (induction ps)
  case Nil
  then show ?case by (simp add: cardTotal_def signedTotal_def)
next
  case (Cons p ps)
  have "cardSign (perm_type p) * sum_list (map qi (linesFor i p)) =
        signOf (perm_type p) * sum_list (map qi (linesFor i p))"
  proof (cases "hasLineFor i p")
    case True
    with Cons.prems show ?thesis by (simp add: cardSign_known)
  next
    case False
    then show ?thesis by (simp add: hasLineFor_iff linesFor_unreferenced)
  qed
  with Cons show ?case
    by (simp add: cardTotal_def signedTotal_def)
qed

lemma signedTotal_bound: "\<bar>signedTotal qi k ps\<bar> \<le> absTotal qi k ps"
proof (induction ps)
  case Nil
  then show ?case by (simp add: signedTotal_def absTotal_def)
next
  case (Cons p ps)
  have "\<bar>signedTotal qi k (p # ps)\<bar> \<le>
        \<bar>signedTotal qi k ps\<bar> + \<bar>sum_list (map qi (linesFor k p))\<bar>"
    using sign_bound [OF signOf_cases, of "signedTotal qi k ps" "perm_type p"
        "sum_list (map qi (linesFor k p))"]
    by (simp add: signedTotal_def add.commute)
  also have "\<dots> \<le> absTotal qi k ps + sum_list (map (\<lambda>l. \<bar>qi l\<bar>) (linesFor k p))"
    using Cons.IH sum_list_abs_le [of qi "linesFor k p"] by simp
  finally show ?case
    by (simp add: absTotal_def)
qed

section \<open>Outflow rows of the item card\<close>








lemma demoEngine_exact: "exactOnIntegers demoEngine"
  by (simp add: exactOnIntegers_def demoEngine_def demoRound_def)


lemmas card_defs = getItemCard_def cardTxs_def cardPermissions_def permissionTxs_def
  lineTx_def pushRow_def arraySort_def consistent_def consistentAt_def cmpEqual_def
  cmpLess_def cmpGreater_def compareDates_def dateOrCreated_def truthyDate_def newDate_def


section \<open>Item card against the balance calculation\<close>

lemma aggregated_item_only:
  "aggregated e (noFilters\<lparr>filterItemId := i\<rparr>) s = filter posted (permissions s)"
  by (simp add: aggregated_def noFilters_def notBefore_def notAfter_def)

lemma computeBalances_item_int:
  assumes ex: "exactOnIntegers e"
    and ints: "\<forall>p \<in> set (permissions s). posted p \<longrightarrow>
                 (\<forall>l \<in> set (lines p). itemId l = i \<longrightarrow> qty l = QtyNum (num_int e (qi l)))"
    and bound: "absTotal qi i (filter posted (permissions s)) \<le> maxSafe"
    and ne: "i \<noteq> []" and plain: "i \<notin> set protoNames" and safe: "hasOwnKey \<notin> storeIds s"
  shows "computeBalances e (noFilters\<lparr>filterItemId := i\<rparr>) s =
         Inr (Map.empty(i \<mapsto> Number (num_int e (signedTotal qi i (filter posted (permissions s))))))"
proof -
  let ?f = "noFilters\<lparr>filterItemId := i\<rparr>"
  let ?ps = "filter posted (permissions s)"
  let ?N = "signedTotal qi i ?ps"
  from plain key_names_inherited have np: "i \<noteq> protoKey"
    by auto
  from scanBalances_ok [OF storeIds_safe [OF safe], of e ?f] obtain b where
    b: "scanBalances e ?f s = Inr b"
    "\<And>k. b k = (if k \<noteq> protoKey \<and> (k \<in> item_id ` set (items s) \<or> k \<in> referenced ?ps)
                 then Some (balanceOf e k ?ps) else None)"
    unfolding aggregated_item_only by blast
  have q: "\<forall>p \<in> set ?ps. \<forall>l \<in> set (lines p). itemId l = i \<longrightarrow>
      qty l = QtyNum (num_int e (qi l))"
    using ints by auto
  have bal: "balanceOf e i ?ps = num_int e ?N"
    by (rule balanceOf_int [OF ex q bound])
  from signedTotal_bound [of qi i ?ps] bound have "\<bar>?N\<bar> \<le> maxSafe"
    by simp
  then have nn: "num_int e ?N \<noteq> num_nan e"
    by (rule exactD(2) [OF ex])
  have v: "orZero e (getProp b i) = Number (num_int e ?N)"
  proof (cases "i \<in> item_id ` set (items s) \<or> i \<in> referenced ?ps")
    case True
    with np have "b i = Some (num_int e ?N)"
      by (simp add: b(2) bal)
    with nn show ?thesis
      by (auto simp: getProp_def orZero_def falsyNum_def)
  next
    case False
    then have "b i = None"
      by (simp add: b(2))
    moreover from False have "balanceOf e i ?ps = num_zero e"
      by (simp add: balanceOf_unreferenced)
    ultimately show ?thesis
      using plain bal by (simp add: getProp_def orZero_def)
  qed
  have "computeBalances e ?f s = Inr (setProp Map.empty i (orZero e (getProp b i)))"
    using ne by (simp add: computeBalances_def b(1))
  then show ?thesis
    using np by (simp add: v setProp_def)
qed

text \<open>
  Claim C2 fails as stated: a posted permission of a type outside the five document
  kinds is an outflow on the item card and has no effect in \<open>computeBalances\<close>. In
  \<open>storeX\<close> the card of item A ends at \<open>-5\<close> while \<open>computeBalances\<close> gives A the value 0.
\<close>

theorem getItemCard_balance_counterexample:
  "card_balance (getItemCard demoEngine ''A'' storeX) = Fin (- 5) \<and>
   computeBalances demoEngine (noFilters\<lparr>filterItemId := ''A''\<rparr>) storeX =
     Inr (Map.empty(''A'' \<mapsto> Number (Fin 0)))"
proof -
  have unknown: "\<not> knownType ''other''"
    by (rule other_unknown)
  have card: "card_balance (getItemCard demoEngine ''A'' storeX) = Fin (- 5)"
    using unknown
    by (simp add: card_defs storeX_def permX_def demo_defs Let_def numberOr0_def toNumber_def
        falsyNum_def engine_defs demoParse_def knownType_def)
  have ty: "''other'' \<noteq> type_addition" "''other'' \<noteq> type_transfer"
    "''other'' \<noteq> type_equipment" "''other'' \<noteq> type_disbursement" "''other'' \<noteq> type_return"
    using unknown by (auto simp: knownType_def)
  have bal: "computeBalances demoEngine (noFilters\<lparr>filterItemId := ''A''\<rparr>) storeX =
     Inr (Map.empty(''A'' \<mapsto> Number (Fin 0)))"
    by (simp add: scan_defs storeX_def permX_def demo_defs demoEngine_def ty)
  from card bal show ?thesis
    by simp
qed

text \<open>
  Claim C2, amended. Let every posted permission that has a line for item \<open>i\<close> be of one
  of the five document kinds, and the quantities of the posted lines for \<open>i\<close> be
  integers whose absolute values add up to at most \<open>2^53\<close>, on an engine whose
  arithmetic is exact on integers of that size. Let \<open>i\<close> be non-empty and not an
  inherited name, and no id of the store be \<^verbatim>\<open>hasOwnProperty\<close>. Then the \<open>balance\<close>
  field of \<open>getItemCard i\<close>, which is the balance of the last row, or 0 when there is no
  row, is the signed sum of the quantities, and \<open>computeBalances\<close> with
  \<open>filterItemId = i\<close> returns the single entry that maps \<open>i\<close> to it.
\<close>

theorem getItemCard_balance_known_types:
  assumes "\<forall>p \<in> set (permissions s). posted p \<and> hasLineFor i p \<longrightarrow> knownType (perm_type p)"
    and "exactOnIntegers e"
    and "\<forall>p \<in> set (permissions s). posted p \<longrightarrow>
           (\<forall>l \<in> set (lines p). itemId l = i \<longrightarrow> qty l = QtyNum (num_int e (qi l)))"
    and "absTotal qi i (filter posted (permissions s)) \<le> maxSafe"
    and "i \<noteq> []" and "i \<notin> set protoNames" and "hasOwnKey \<notin> storeIds s"
  shows "card_balance (getItemCard e i s) =
           (if rows (getItemCard e i s) = [] then num_zero e
            else balance (last (rows (getItemCard e i s)))) \<and>
         card_balance (getItemCard e i s) =
           num_int e (signedTotal qi i (filter posted (permissions s))) \<and>
         computeBalances e (noFilters\<lparr>filterItemId := i\<rparr>) s =
           Inr (Map.empty(i \<mapsto> Number (card_balance (getItemCard e i s))))"
proof -
  have "\<forall>p \<in> set (filter posted (permissions s)). hasLineFor i p \<longrightarrow> knownType (perm_type p)"
    using assms(1) by simp
  then have "cardTotal qi i (filter posted (permissions s)) =
             signedTotal qi i (filter posted (permissions s))"
    by (rule cardTotal_signedTotal)
  with card_balance_int [OF assms(2-4)]
  have eq: "card_balance (getItemCard e i s) =
            num_int e (signedTotal qi i (filter posted (permissions s)))"
    by simp
  have "computeBalances e (noFilters\<lparr>filterItemId := i\<rparr>) s =
           Inr (Map.empty(i \<mapsto> Number (card_balance (getItemCard e i s))))"
    unfolding eq by (rule computeBalances_item_int [OF assms(2-7)])
  with eq card_balance_last [of e i s] show ?thesis
    by blast
qed

theorem getItemCard_balance_known_types_witness:
  "card_balance (getItemCard demoEngine ''A'' demoStore) = Fin 7 \<and>
   computeBalances demoEngine (noFilters\<lparr>filterItemId := ''A''\<rparr>) demoStore =
     Inr (Map.empty(''A'' \<mapsto> Number (Fin 7))) \<and>
   map balance (rows (getItemCard demoEngine ''A'' demoStore)) = [Fin 10, Fin 7]"
proof -
  let ?qi = "\<lambda>l :: dnum line. if qty l = QtyNum (Fin 10) then 10 else (3 :: int)"
  have known: "\<forall>p \<in> set (permissions demoStore).
      posted p \<and> hasLineFor ''A'' p \<longrightarrow> knownType (perm_type p)"
    by (simp add: demo_defs knownType_def)
  have ints: "\<forall>p \<in> set (permissions demoStore). posted p \<longrightarrow>
      (\<forall>l \<in> set (lines p). itemId l = ''A'' \<longrightarrow> qty l = QtyNum (num_int demoEngine (?qi l)))"
    by (simp add: demo_defs engine_defs)
  have ab: "absTotal ?qi ''A'' (filter posted (permissions demoStore)) \<le> maxSafe"
    by (simp add: absTotal_def linesFor_def demo_defs maxSafe_def)
  have st: "signedTotal ?qi ''A'' (filter posted (permissions demoStore)) = 7"
    by (simp add: signedTotal_def linesFor_def demo_defs signOf_known)
  have plain: "''A'' \<noteq> []" "''A'' \<notin> set protoNames"
    by (simp_all add: protoNames_def)
  note w = getItemCard_balance_known_types [OF known demoEngine_exact ints ab plain
      demoStore_ids]
  from w have "card_balance (getItemCard demoEngine ''A'' demoStore) =
      num_int demoEngine (signedTotal ?qi ''A'' (filter posted (permissions demoStore)))"
    by blast
  then have card: "card_balance (getItemCard demoEngine ''A'' demoStore) = Fin 7"
    by (simp add: st engine_defs)
  from w have "computeBalances demoEngine (noFilters\<lparr>filterItemId := ''A''\<rparr>) demoStore =
      Inr (Map.empty(''A'' \<mapsto> Number (card_balance (getItemCard demoEngine ''A'' demoStore))))"
    by blast
  then have cb: "computeBalances demoEngine (noFilters\<lparr>filterItemId := ''A''\<rparr>) demoStore =
      Inr (Map.empty(''A'' \<mapsto> Number (Fin 7)))"
    unfolding card .
  have rws: "map balance (rows (getItemCard demoEngine ''A'' demoStore)) = [Fin 10, Fin 7]"
    using type_distinct
    by (simp add: card_defs demo_defs Let_def numberOr0_def toNumber_def falsyNum_def
        engine_defs demoParse_def)
  from card cb rws show ?thesis
    by simp
qed

section \<open>Chronological order of the item card\<close>

lemma newDate_dateOrCreated: "newDate e (dateOrCreated p) = sortTime e p"
  by (cases "date p") (simp_all add: dateOrCreated_def truthyDate_def sortTime_def newDate_def)

lemma compareDates_parsed:
  assumes "sortTime e x \<noteq> None" and "sortTime e y \<noteq> None"
  shows "compareDates e x y = Some (sortKey e x - sortKey e y)"
  using assms by (auto simp: compareDates_def newDate_dateOrCreated sortKey_def)

lemma consistent_compareDates:
  assumes "\<forall>x \<in> set xs. sortTime e x \<noteq> None"
  shows "consistent (compareDates e) xs"
proof -
  have "consistentAt (compareDates e) a b c"
    if "a \<in> set xs" "b \<in> set xs" "c \<in> set xs" for a b c
  proof -
    from that assms have p: "sortTime e a \<noteq> None" "sortTime e b \<noteq> None" "sortTime e c \<noteq> None"
      by auto
    show ?thesis
      by (simp add: consistentAt_def cmpEqual_def cmpLess_def cmpGreater_def
          compareDates_parsed p)
  qed
  then show ?thesis
    by (simp add: consistent_def list_all_iff)
qed

lemma insertBy_insort_key:
  assumes "sortTime e x \<noteq> None" and "\<forall>y \<in> set ys. sortTime e y \<noteq> None"
  shows "insertBy (compareDates e) x ys = insort_key (sortKey e) x ys"
  using assms by (induction ys) (auto simp: cmpGreater_def compareDates_parsed)

lemma foldr_insertBy_sort_key:
  assumes "\<forall>x \<in> set xs. sortTime e x \<noteq> None"
  shows "foldr (insertBy (compareDates e)) xs [] = sort_key (sortKey e) xs"
  using assms
proof (induction xs)
  case Nil
  then show ?case by simp
next
  case (Cons x xs)
  then have "foldr (insertBy (compareDates e)) xs [] = sort_key (sortKey e) xs"
    by simp
  moreover have "insertBy (compareDates e) x (sort_key (sortKey e) xs) =
                 insort_key (sortKey e) x (sort_key (sortKey e) xs)"
    using Cons.prems by (intro insertBy_insort_key) simp_all
  ultimately show ?case
    by (simp add: sort_key_def)
qed

lemma arraySort_sort_key:
  assumes "\<forall>x \<in> set xs. sortTime e x \<noteq> None"
  shows "arraySort e (compareDates e) xs = sort_key (sortKey e) xs"
  by (simp add: arraySort_def consistent_compareDates [OF assms]
      foldr_insertBy_sort_key [OF assms])

lemma sorted_map_const:
  fixes c :: int
  shows "sorted (map (\<lambda>l. c) xs)"
  by (induction xs) simp_all

lemma sorted_concat_keyed:
  fixes f :: "'a \<Rightarrow> int"
  assumes "sorted (map f ps)"
  shows "sorted (concat (map (\<lambda>p. map (\<lambda>l. f p) (g p)) ps))"
  using assms
proof (induction ps)
  case Nil
  then show ?case by simp
next
  case (Cons p ps)
  have "\<forall>y \<in> set (concat (map (\<lambda>p. map (\<lambda>l. f p) (g p)) ps)). f p \<le> y"
    using Cons.prems by auto
  moreover have "sorted (map (\<lambda>l. f p) (g p))"
    by (rule sorted_map_const)
  ultimately show ?case
    using Cons by (auto simp: sorted_append)
qed

lemma tx_date_cardTxs:
  "map tx_date (cardTxs e i s) =
     concat (map (\<lambda>p. map (\<lambda>l. dateOrCreated p) (linesFor i p)) (cardPermissions e i s))"
  by (simp add: cardTxs_def permissionTxs_def lineTx_def linesFor_def map_concat comp_def
      Let_def)

lemma row_times:
  "map (\<lambda>r. newDate e (tx_date r)) (rows (getItemCard e i s)) =
     concat (map (\<lambda>p. map (\<lambda>l. sortTime e p) (linesFor i p)) (cardPermissions e i s))"
proof -
  have "map (\<lambda>r. newDate e (tx_date r)) (rows (getItemCard e i s)) =
        map (newDate e) (map tx_date (rows (getItemCard e i s)))"
    by simp
  also have "\<dots> = map (newDate e)
      (concat (map (\<lambda>p. map (\<lambda>l. dateOrCreated p) (linesFor i p)) (cardPermissions e i s)))"
    by (simp only: rows_getItemCard tx_fields_runningRows tx_date_cardTxs)
  also have "\<dots> = concat (map (\<lambda>p. map (\<lambda>l. sortTime e p) (linesFor i p))
                            (cardPermissions e i s))"
    by (simp add: map_concat comp_def newDate_dateOrCreated)
  finally show ?thesis .
qed

text \<open>
  Claim C7 fails as stated when the date of a selected permission does not parse: the
  comparator then returns NaN, it is not a consistent comparator, and the language
  leaves the order to the engine. On an engine that leaves such an array in place, the
  card of item A in \<open>storeSoon\<close> has its row of 2024-01-05 before its row of 2024-01-01.
\<close>

theorem getItemCard_chronological_counterexample:
  "map (\<lambda>r. newDate demoEngine (tx_date r)) (rows (getItemCard demoEngine ''A'' storeSoon)) =
     [Some 1704412800000, None, Some 1704067200000]"
proof -
  have src: "cardSource ''A'' storeSoon = [permP2, permSoon, permP1]"
    by (simp add: cardSource_def hasLineFor_def storeSoon_def permSoon_def demo_defs)
  have t: "sortTime demoEngine permP2 = Some 1704412800000"
    "sortTime demoEngine permSoon = None" "sortTime demoEngine permP1 = Some 1704067200000"
    by (simp_all add: sortTime_def permSoon_def demo_defs demoEngine_def demoParse_def)
  have "\<not> consistentAt (compareDates demoEngine) permP2 permSoon permP1"
    by (simp add: consistentAt_def compareDates_def newDate_dateOrCreated t)
  then have "\<not> consistent (compareDates demoEngine) [permP2, permSoon, permP1]"
    by (simp add: consistent_def)
  then have "arraySort demoEngine (compareDates demoEngine) [permP2, permSoon, permP1] =
             [permP2, permSoon, permP1]"
    by (simp add: arraySort_def engineOrder_def demoEngine_def Let_def)
  then have "cardPermissions demoEngine ''A'' storeSoon = [permP2, permSoon, permP1]"
    by (simp add: cardPermissions_eq src)
  then show ?thesis
    by (simp add: row_times t) (simp add: linesFor_def permSoon_def demo_defs)
qed

text \<open>
  Claim C7, amended. Let every posted permission with a line for item \<open>i\<close> have a date,
  or a \<open>createdAt\<close> when the date is absent, \<^verbatim>\<open>null\<close> or empty, that parses. Then the
  permissions behind the rows of \<open>getItemCard i\<close> are the selected ones in the order of
  the stable sort by that time value: ascending, the permissions of equal time value in
  the order they have in the store. Each permission contributes its rows in the order
  of its lines, the time value of the \<open>date\<close> field of a row is that of its permission,
  and so the rows are in non-decreasing order of their \<open>date\<close> field.
\<close>

theorem getItemCard_chronological:
  assumes "\<forall>p \<in> set (permissions s). posted p \<and> hasLineFor i p \<longrightarrow> sortTime e p \<noteq> None"
  shows "cardPermissions e i s = sort_key (sortKey e) (cardSource i s) \<and>
         mset (cardPermissions e i s) = mset (cardSource i s) \<and>
         sorted (map (sortKey e) (cardPermissions e i s)) \<and>
         (\<forall>t. filter (\<lambda>p. sortKey e p = t) (cardPermissions e i s) =
              filter (\<lambda>p. sortKey e p = t) (cardSource i s)) \<and>
         map (\<lambda>r. newDate e (tx_date r)) (rows (getItemCard e i s)) =
           concat (map (\<lambda>p. map (\<lambda>l. sortTime e p) (linesFor i p))
                    (sort_key (sortKey e) (cardSource i s))) \<and>
         sorted (map (\<lambda>r. timeValue e (tx_date r)) (rows (getItemCard e i s)))"
proof -
  have "\<forall>p \<in> set (cardSource i s). sortTime e p \<noteq> None"
    using assms by (auto simp: cardSource_def)
  then have sk: "cardPermissions e i s = sort_key (sortKey e) (cardSource i s)"
    by (simp add: cardPermissions_eq arraySort_sort_key)
  have srt: "sorted (map (sortKey e) (cardPermissions e i s))"
    by (simp add: sk)
  have stable: "filter (\<lambda>p. sortKey e p = t) (cardPermissions e i s) =
                filter (\<lambda>p. sortKey e p = t) (cardSource i s)" for t
    by (simp add: sk sort_key_stable)
  have times: "map (\<lambda>r. newDate e (tx_date r)) (rows (getItemCard e i s)) =
           concat (map (\<lambda>p. map (\<lambda>l. sortTime e p) (linesFor i p))
                    (sort_key (sortKey e) (cardSource i s)))"
    by (simp only: row_times sk)
  have "map (\<lambda>r. timeValue e (tx_date r)) (rows (getItemCard e i s)) =
        map (\<lambda>v. case v of None \<Rightarrow> 0 | Some t \<Rightarrow> t)
          (map (\<lambda>r. newDate e (tx_date r)) (rows (getItemCard e i s)))"
    by (simp add: timeValue_def)
  also have "\<dots> = concat (map (\<lambda>p. map (\<lambda>l. sortKey e p) (linesFor i p))
                            (cardPermissions e i s))"
    by (simp only: row_times) (simp add: map_concat comp_def sortKey_def)
  finally have "sorted (map (\<lambda>r. timeValue e (tx_date r)) (rows (getItemCard e i s)))"
    using sorted_concat_keyed [OF srt] by simp
  moreover have "mset (cardPermissions e i s) = mset (cardSource i s)"
    by (rule mset_cardPermissions)
  ultimately show ?thesis
    using sk srt stable times by blast
qed

theorem getItemCard_chronological_witness:
  "map tx_date (rows (getItemCard demoEngine ''A'' storeLate)) =
     [DateStr ''2024-01-01'', DateStr ''2024-01-02'', DateStr ''2024-01-05''] \<and>
   map (\<lambda>r. newDate demoEngine (tx_date r)) (rows (getItemCard demoEngine ''A'' storeLate)) =
     [Some 1704067200000, Some 1704153600000, Some 1704412800000] \<and>
   cardPermissions demoEngine ''A'' storeLate = [permP1, permNoDate, permP2]"
proof -
  have t: "sortTime demoEngine permP2 = Some 1704412800000"
    "sortTime demoEngine permNoDate = Some 1704153600000"
    "sortTime demoEngine permP1 = Some 1704067200000"
    by (simp_all add: sortTime_def newDate_def permNoDate_def demo_defs demoEngine_def
        demoParse_def)
  have src: "cardSource ''A'' storeLate = [permP2, permNoDate, permP1]"
    by (simp add: cardSource_def hasLineFor_def storeLate_def permNoDate_def demo_defs)
  have parses: "\<forall>p \<in> set (permissions storeLate).
      posted p \<and> hasLineFor ''A'' p \<longrightarrow> sortTime demoEngine p \<noteq> None"
    by (simp add: storeLate_def t)
  have sorted_src: "sort_key (sortKey demoEngine) [permP2, permNoDate, permP1] =
      [permP1, permNoDate, permP2]"
    by (simp add: sortKey_def t)
  note w = getItemCard_chronological [OF parses, unfolded src sorted_src]
  from w have cp: "cardPermissions demoEngine ''A'' storeLate = [permP1, permNoDate, permP2]"
    by blast
  from w have "map (\<lambda>r. newDate demoEngine (tx_date r))
      (rows (getItemCard demoEngine ''A'' storeLate)) =
      concat (map (\<lambda>p. map (\<lambda>l. sortTime demoEngine p) (linesFor ''A'' p))
        [permP1, permNoDate, permP2])"
    by blast
  then have tm: "map (\<lambda>r. newDate demoEngine (tx_date r))
      (rows (getItemCard demoEngine ''A'' storeLate)) =
      [Some 1704067200000, Some 1704153600000, Some 1704412800000]"
    by (simp add: t) (simp add: linesFor_def permNoDate_def demo_defs)
  have "map tx_date (rows (getItemCard demoEngine ''A'' storeLate)) =
      concat (map (\<lambda>p. map (\<lambda>l. dateOrCreated p) (linesFor ''A'' p))
        [permP1, permNoDate, permP2])"
    by (simp only: rows_getItemCard tx_fields_runningRows tx_date_cardTxs cp)
  then have dt: "map tx_date (rows (getItemCard demoEngine ''A'' storeLate)) =
     [DateStr ''2024-01-01'', DateStr ''2024-01-02'', DateStr ''2024-01-05'']"
    by (simp add: linesFor_def dateOrCreated_def truthyDate_def permNoDate_def demo_defs)
  from dt tm cp show ?thesis
    by simp
qed

section \<open>Backup restore\<close>

lemma refreshMasterData_store:
  "app_saved (snd (refreshMasterData e st)) = app_saved st"
  "d_warehouses (app_store (snd (refreshMasterData e st))) = d_warehouses (app_store st)"
  "d_permissions (app_store (snd (refreshMasterData e st))) = d_permissions (app_store st)"
  by (simp_all add: refreshMasterData_def Let_def split: container.splits)

lemma refreshMasterData_items:
  "case d_items (app_store st) of
     Array its \<Rightarrow> (\<exists>its'. d_items (app_store (snd (refreshMasterData e st))) = Array its' \<and>
                          mset its' = mset its)
   | c \<Rightarrow> d_items (app_store (snd (refreshMasterData e st))) = c"
  by (simp add: refreshMasterData_def Let_def mset_arraySort split: container.splits)

lemma snd_refreshAllViews: "snd (refreshAllViews e st) = snd (refreshMasterData e (saveStore e st))"
  by (simp add: refreshAllViews_def split: prod.splits option.splits)

lemma refreshAllViews_store:
  "app_saved (snd (refreshAllViews e st)) = JsonValue (serialized e (app_store st))"
  "d_warehouses (app_store (snd (refreshAllViews e st))) = d_warehouses (app_store st)"
  "d_permissions (app_store (snd (refreshAllViews e st))) = d_permissions (app_store st)"
  by (simp_all add: snd_refreshAllViews refreshMasterData_store) (simp_all add: saveStore_def)

lemma refreshAllViews_items:
  "case d_items (app_store st) of
     Array its \<Rightarrow> (\<exists>its'. d_items (app_store (snd (refreshAllViews e st))) = Array its' \<and>
                          mset its' = mset its)
   | c \<Rightarrow> d_items (app_store (snd (refreshAllViews e st))) = c"
proof -
  have s: "app_store (saveStore e st) = app_store st"
    by (simp add: saveStore_def)
  from refreshMasterData_items [where st = "saveStore e st" and e = e] show ?thesis
    unfolding snd_refreshAllViews s .
qed

lemma snd_importBackupFile:
  assumes "d_items d \<noteq> Missing" and "d_warehouses d \<noteq> Missing" and "d_permissions d \<noteq> Missing"
  shows "snd (importBackupFile e (JsonValue d) st) =
         snd (refreshAllViews e (saveStore e (st\<lparr>app_store := d\<rparr>)))"
  using assms by (simp add: importBackupFile_def split: prod.splits option.splits)

text \<open>
  Claim C9 fails as stated for the payload \<^verbatim>\<open>null\<close>, in which all three containers are
  missing: reading \<^verbatim>\<open>data.items\<close> throws a \<^verbatim>\<open>TypeError\<close> before the validation can
  throw its own error, so the failure reported is not the one of an invalid backup.
\<close>

theorem importBackupFile_validates_first_counterexample:
  "importBackupFile demoEngine JsonNull demoApp = (RestoreFailed TypeError, demoApp) \<and>
   TypeError \<noteq> InvalidBackup"
  by (simp add: importBackupFile_def InvalidBackup_def)

text \<open>
  Claim C9, amended. For a payload other than \<^verbatim>\<open>null\<close> in which one of the three
  containers is missing (absent or falsy), the restore fails with the error of an invalid
  backup and the state is unchanged. For the payload \<^verbatim>\<open>null\<close> and for a text that is
  not JSON it fails with the engine's \<^verbatim>\<open>TypeError\<close> or \<^verbatim>\<open>SyntaxError\<close>, the state
  unchanged as well. The state changes only when all three containers are present; then
  the store is replaced by the payload and saved, its items sorted by name when they are
  an array, whether the alert that follows reports success or a failure of the refresh.
\<close>

theorem importBackupFile_validates_first:
  "(d_items d = Missing \<or> d_warehouses d = Missing \<or> d_permissions d = Missing \<longrightarrow>
      importBackupFile e (JsonValue d) st = (RestoreFailed InvalidBackup, st)) \<and>
   importBackupFile e JsonNull st = (RestoreFailed TypeError, st) \<and>
   importBackupFile e NotJson st = (RestoreFailed SyntaxError, st) \<and>
   (snd (importBackupFile e content st) \<noteq> st \<longrightarrow>
      (\<exists>c. content = JsonValue c \<and> d_items c \<noteq> Missing \<and> d_warehouses c \<noteq> Missing \<and>
           d_permissions c \<noteq> Missing)) \<and>
   (d_items d \<noteq> Missing \<and> d_warehouses d \<noteq> Missing \<and> d_permissions d \<noteq> Missing \<longrightarrow>
      app_saved (snd (importBackupFile e (JsonValue d) st)) = JsonValue (serialized e d) \<and>
      d_warehouses (app_store (snd (importBackupFile e (JsonValue d) st))) = d_warehouses d \<and>
      d_permissions (app_store (snd (importBackupFile e (JsonValue d) st))) = d_permissions d \<and>
      (case d_items d of
         Array its \<Rightarrow>
           (\<exists>its'. d_items (app_store (snd (importBackupFile e (JsonValue d) st))) = Array its' \<and>
                   mset its' = mset its)
       | c \<Rightarrow> d_items (app_store (snd (importBackupFile e (JsonValue d) st))) = c))"
proof -
  have missing: "importBackupFile e (JsonValue d) st = (RestoreFailed InvalidBackup, st)"
    if "d_items d = Missing \<or> d_warehouses d = Missing \<or> d_permissions d = Missing"
    using that by (auto simp: importBackupFile_def)
  have null: "importBackupFile e JsonNull st = (RestoreFailed TypeError, st)"
    and unparsed: "importBackupFile e NotJson st = (RestoreFailed SyntaxError, st)"
    by (simp_all add: importBackupFile_def)
  have only: "\<exists>c. content = JsonValue c \<and> d_items c \<noteq> Missing \<and> d_warehouses c \<noteq> Missing \<and>
           d_permissions c \<noteq> Missing"
    if "snd (importBackupFile e content st) \<noteq> st"
    using that by (cases content) (auto simp: importBackupFile_def split: if_splits)
  have replaced: "app_saved (snd (importBackupFile e (JsonValue d) st)) =
        JsonValue (serialized e d) \<and>
      d_warehouses (app_store (snd (importBackupFile e (JsonValue d) st))) = d_warehouses d \<and>
      d_permissions (app_store (snd (importBackupFile e (JsonValue d) st))) = d_permissions d \<and>
      (case d_items d of
         Array its \<Rightarrow>
           (\<exists>its'. d_items (app_store (snd (importBackupFile e (JsonValue d) st))) = Array its' \<and>
                   mset its' = mset its)
       | c \<Rightarrow> d_items (app_store (snd (importBackupFile e (JsonValue d) st))) = c)"
    if "d_items d \<noteq> Missing" "d_warehouses d \<noteq> Missing" "d_permissions d \<noteq> Missing"
  proof -
    let ?st = "saveStore e (st\<lparr>app_store := d\<rparr>)"
    have s: "app_store ?st = d"
      by (simp add: saveStore_def)
    have sv: "app_saved (snd (refreshAllViews e ?st)) = JsonValue (serialized e d)"
      and wh: "d_warehouses (app_store (snd (refreshAllViews e ?st))) = d_warehouses d"
      and pm: "d_permissions (app_store (snd (refreshAllViews e ?st))) = d_permissions d"
      by (simp_all add: refreshAllViews_store s)
    from refreshAllViews_items [where st = ?st and e = e] sv wh pm show ?thesis
      unfolding snd_importBackupFile [OF that] s by blast
  qed
  from missing null unparsed only replaced show ?thesis
    by blast
qed

theorem importBackupFile_validates_first_witness:
  "importBackupFile demoEngine (JsonValue dataNoWarehouses) demoApp =
     (RestoreFailed InvalidBackup, demoApp) \<and>
   fst (importBackupFile demoEngine (JsonValue dataBadItems) demoApp) =
     RestoreFailed TypeError \<and>
   app_saved (snd (importBackupFile demoEngine (JsonValue dataBadItems) demoApp)) =
     JsonValue dataBadItems \<and>
   d_items (app_store (snd (importBackupFile demoEngine (JsonValue dataBadItems) demoApp))) =
     NotArray \<and>
   d_permissions (app_store (snd (importBackupFile demoEngine (JsonValue dataBadItems) demoApp))) =
     Array []"
proof -
  have miss: "d_items dataNoWarehouses = Missing \<or> d_warehouses dataNoWarehouses = Missing \<or>
      d_permissions dataNoWarehouses = Missing"
    by (simp add: dataNoWarehouses_def)
  have pres: "d_items dataBadItems \<noteq> Missing \<and> d_warehouses dataBadItems \<noteq> Missing \<and>
      d_permissions dataBadItems \<noteq> Missing"
    by (simp add: dataBadItems_def)
  have ser: "serialized demoEngine dataBadItems = dataBadItems"
    by (simp add: serialized_def dataBadItems_def)
  have flds: "d_items dataBadItems = NotArray" "d_permissions dataBadItems = Array []"
    by (simp_all add: dataBadItems_def)
  from importBackupFile_validates_first [where d = dataNoWarehouses and e = demoEngine
      and st = demoApp] miss
  have a: "importBackupFile demoEngine (JsonValue dataNoWarehouses) demoApp =
     (RestoreFailed InvalidBackup, demoApp)"
    by blast
  note w = importBackupFile_validates_first [where d = dataBadItems and e = demoEngine
      and st = demoApp, unfolded ser flds container.case]
  from w pres have b: "app_saved (snd (importBackupFile demoEngine (JsonValue dataBadItems)
      demoApp)) = JsonValue dataBadItems"
    and c: "d_items (app_store (snd (importBackupFile demoEngine (JsonValue dataBadItems)
      demoApp))) = NotArray"
    and d: "d_permissions (app_store (snd (importBackupFile demoEngine (JsonValue dataBadItems)
      demoApp))) = Array []"
    by blast+
  have f: "fst (importBackupFile demoEngine (JsonValue dataBadItems) demoApp) =
     RestoreFailed TypeError"
    by (simp add: importBackupFile_def refreshAllViews_def refreshMasterData_def saveStore_def
        dataBadItems_def)
  from a f b c d show ?thesis
    by blast
qed

section \<open>Backup round trip\<close>

lemma serializedQty_finite: "finiteQty e q \<Longrightarrow> serializedQty e q = q"
  by (cases q) (simp_all add: finiteQty_def serializedQty_def)

lemma serializedPermission_finite:
  assumes "list_all (\<lambda>l. finiteQty e (qty l)) (lines p)"
  shows "serializedPermission e p = p"
proof -
  have "map (serializedLine e) ls = ls" if "list_all (\<lambda>l. finiteQty e (qty l)) ls" for ls
    using that by (induction ls) (simp_all add: serializedLine_def serializedQty_finite)
  from this [OF assms] show ?thesis
    by (simp add: serializedPermission_def)
qed

lemma serialized_finite:
  assumes "finiteStore e s"
  shows "serialized e (storeData s) = storeData s"
proof -
  have "map (serializedPermission e) ps = ps"
    if "list_all (\<lambda>p. list_all (\<lambda>l. finiteQty e (qty l)) (lines p)) ps" for ps
    using that by (induction ps) (simp_all add: serializedPermission_finite)
  from this [of "permissions s"] assms show ?thesis
    by (simp add: serialized_def storeData_def finiteStore_def)
qed

lemma storeIds_items_cong:
  "set its = set (items s) \<Longrightarrow> storeIds (s\<lparr>items := its\<rparr>) = storeIds s"
  by (simp add: storeIds_def)

lemma restore_storeData:
  assumes fin: "finiteStore e s"
  shows "snd (importBackupFile e (JsonValue (storeData s)) st) =
           \<lparr>app_store = storeData (s\<lparr>items := arraySort e
                (\<lambda>a b. Some (localeCompare e (item_name a) (item_name b))) (items s)\<rparr>),
            app_saved = JsonValue (storeData s)\<rparr>"
    and "hasOwnKey \<notin> storeIds s \<Longrightarrow>
           fst (importBackupFile e (JsonValue (storeData s)) st) = Restored"
proof -
  define its where
    "its = arraySort e (\<lambda>a b. Some (localeCompare e (item_name a) (item_name b))) (items s)"
  let ?st1 = "saveStore e (saveStore e (st\<lparr>app_store := storeData s\<rparr>))"
  let ?st2 = "\<lparr>app_store = storeData (s\<lparr>items := its\<rparr>), app_saved = JsonValue (storeData s)\<rparr>"
  have st1: "?st1 = \<lparr>app_store = storeData s, app_saved = JsonValue (storeData s)\<rparr>"
    by (simp add: saveStore_def serialized_finite [OF fin])
  have rmd: "refreshMasterData e ?st1 = (renderItemsTable e ?st2, ?st2)"
    unfolding st1 by (simp add: refreshMasterData_def Let_def storeData_def its_def)
  have imp: "importBackupFile e (JsonValue (storeData s)) st =
      (case refreshAllViews e (saveStore e (st\<lparr>app_store := storeData s\<rparr>)) of
         (Some err, st') \<Rightarrow> (RestoreFailed err, st')
       | (None, st') \<Rightarrow> (Restored, st'))"
    by (simp add: importBackupFile_def storeData_def)
  have "snd (importBackupFile e (JsonValue (storeData s)) st) = ?st2"
    by (simp add: imp refreshAllViews_def rmd split: option.splits)
  then show "snd (importBackupFile e (JsonValue (storeData s)) st) =
           \<lparr>app_store = storeData (s\<lparr>items := arraySort e
                (\<lambda>a b. Some (localeCompare e (item_name a) (item_name b))) (items s)\<rparr>),
            app_saved = JsonValue (storeData s)\<rparr>"
    unfolding its_def .
  show "fst (importBackupFile e (JsonValue (storeData s)) st) = Restored"
    if safe: "hasOwnKey \<notin> storeIds s"
  proof -
    have "set its = set (items s)"
      by (simp add: its_def set_arraySort)
    with safe have safe': "hasOwnKey \<notin> storeIds (s\<lparr>items := its\<rparr>)"
      by (simp add: storeIds_items_cong)
    have nf: "filterItemId noFilters = []" "filterGroup noFilters = []"
      by (simp_all add: noFilters_def)
    from computeBalances_unfiltered [OF safe' nf, of e] obtain m where
      "computeBalances e noFilters (s\<lparr>items := its\<rparr>) = Inr m"
      by blast
    moreover have "typedStore (storeData (s\<lparr>items := its\<rparr>)) = Some (s\<lparr>items := its\<rparr>)"
      by (simp add: typedStore_def storeData_def)
    ultimately have "renderItemsTable e ?st2 = None"
      by (simp add: renderItemsTable_def)
    then show ?thesis
      by (simp add: imp refreshAllViews_def rmd)
  qed
qed

text \<open>
  Claim C8 fails as stated for a snapshot that holds a quantity that is not finite, which
  the CSV import creates from an \<^verbatim>\<open>initial_qty\<close> such as \<^verbatim>\<open>Infinity\<close> or \<^verbatim>\<open>1e999\<close>:
  \<^verbatim>\<open>JSON.stringify\<close> writes it as \<^verbatim>\<open>null\<close>, and the restored line has the quantity
  \<^verbatim>\<open>null\<close>, which counts as 0.
\<close>

theorem backup_round_trip_counterexample:
  "map (\<lambda>p. map qty (lines p)) (permissions storeInf) = [[QtyNum PosInf]] \<and>
   (\<exists>ps. d_permissions (app_store (snd (importBackupFile demoEngine
            (exportBackup demoEngine \<lparr>app_store = storeData storeInf, app_saved = JsonNull\<rparr>)
            emptyApp))) = Array ps \<and>
         map (\<lambda>p. map qty (lines p)) ps = [[QtyNull]])"
proof -
  have d: "d_permissions (serialized demoEngine (storeData storeInf)) =
      Array (map (serializedPermission demoEngine) (permissions storeInf))"
    "d_items (serialized demoEngine (storeData storeInf)) \<noteq> Missing"
    "d_warehouses (serialized demoEngine (storeData storeInf)) \<noteq> Missing"
    "d_permissions (serialized demoEngine (storeData storeInf)) \<noteq> Missing"
    by (simp_all add: serialized_def storeData_def)
  have "d_permissions (app_store (snd (importBackupFile demoEngine
            (exportBackup demoEngine \<lparr>app_store = storeData storeInf, app_saved = JsonNull\<rparr>)
            emptyApp))) = Array (map (serializedPermission demoEngine) (permissions storeInf))"
    by (simp add: exportBackup_def snd_importBackupFile [OF d(2-4)] refreshAllViews_store d(1))
       (simp add: saveStore_def d(1))
  moreover have "map (\<lambda>p. map qty (lines p))
      (map (serializedPermission demoEngine) (permissions storeInf)) = [[QtyNull]]"
    by (simp add: storeInf_def demoPermission_def demoLine_def serializedPermission_def
        serializedLine_def serializedQty_def demoEngine_def)
  moreover have "map (\<lambda>p. map qty (lines p)) (permissions storeInf) = [[QtyNum PosInf]]"
    by (simp add: storeInf_def demoPermission_def demoLine_def)
  ultimately show ?thesis
    by simp
qed

text \<open>
  Claim C8, amended. For a snapshot of three arrays in which every quantity is a finite
  number, \<^verbatim>\<open>null\<close> or absent, restoring the backup that \<open>exportBackup\<close> produces from
  it, over any current state, gives a store with the same warehouses and permissions
  and the same items up to their order (the refresh sorts them by name), saved as the
  original snapshot. The restore reports success when no id of the snapshot is
  \<^verbatim>\<open>hasOwnProperty\<close>.
\<close>

theorem backup_round_trip:
  assumes "finiteStore e s" and "app_store st = storeData s"
  shows "(\<exists>its. snd (importBackupFile e (exportBackup e st) st') =
            \<lparr>app_store = storeData \<lparr>items = its, warehouses = warehouses s,
                                      permissions = permissions s\<rparr>,
             app_saved = JsonValue (storeData s)\<rparr> \<and>
            mset its = mset (items s)) \<and>
         (hasOwnKey \<notin> storeIds s \<longrightarrow>
            fst (importBackupFile e (exportBackup e st) st') = Restored)"
proof -
  let ?its = "arraySort e (\<lambda>a b. Some (localeCompare e (item_name a) (item_name b))) (items s)"
  have ex: "exportBackup e st = JsonValue (storeData s)"
    by (simp add: exportBackup_def assms(2) serialized_finite [OF assms(1)])
  have "s\<lparr>items := ?its\<rparr> =
        \<lparr>items = ?its, warehouses = warehouses s, permissions = permissions s\<rparr>"
    by simp
  with restore_storeData(1) [OF assms(1), of st']
  have "snd (importBackupFile e (exportBackup e st) st') =
            \<lparr>app_store = storeData \<lparr>items = ?its, warehouses = warehouses s,
                                      permissions = permissions s\<rparr>,
             app_saved = JsonValue (storeData s)\<rparr>"
    by (simp only: ex)
  moreover have "mset ?its = mset (items s)"
    by (rule mset_arraySort)
  moreover have "fst (importBackupFile e (exportBackup e st) st') = Restored"
    if "hasOwnKey \<notin> storeIds s"
    unfolding ex using that by (rule restore_storeData(2) [OF assms(1)])
  ultimately show ?thesis
    by blast
qed

theorem backup_round_trip_witness:
  "fst (importBackupFile demoEngine (exportBackup demoEngine demoApp) emptyApp) = Restored \<and>
   (\<exists>its. snd (importBackupFile demoEngine (exportBackup demoEngine demoApp) emptyApp) =
            \<lparr>app_store = storeData \<lparr>items = its, warehouses = [],
                                      permissions = [permP1, permDraft, permP2]\<rparr>,
             app_saved = JsonValue (storeData demoStore)\<rparr> \<and>
          mset its = {#demoItem ''A'' ''office'', demoItem ''B'' ''tools''#})"
proof -
  have fin: "finiteStore demoEngine demoStore"
    by (simp add: finiteStore_def finiteQty_def demo_defs demoEngine_def)
  have st: "app_store demoApp = storeData demoStore"
    by (simp add: demoApp_def)
  have flds: "warehouses demoStore = []" "permissions demoStore = [permP1, permDraft, permP2]"
    "mset (items demoStore) = {#demoItem ''A'' ''office'', demoItem ''B'' ''tools''#}"
    by (simp_all add: demoStore_def)
  from backup_round_trip [OF fin st, of emptyApp, unfolded flds] demoStore_ids show ?thesis
    by blast
qed

end
